theory Spec2Isabelle
  imports Main "HOL-Library.Sublist"
begin


section \<open>Data model of ipalib/plugins/host.py\<close>

text \<open>
  The plugin is Python 2 code that works on dictionaries. An entry passed to a hook
  (\<open>entry_attrs\<close>) maps attribute names to dynamically typed values: \<open>None\<close>, a
  string, or a list of strings. An entry read from the directory (\<open>entry_attrs_old\<close>)
  maps every attribute to the list of its values. Exceptions are values of \<open>error\<close>.
\<close>

type_synonym dn = string

datatype error =
    NotFound
  | ACIError string
  | GenericError string
  | KeyError string
  | IndexError
  | TypeError
  | AttributeError
  | DNSError
  | CertificateError
  | MalformedServicePrincipal

datatype attr_value = NoneV | Str string | Lst "string list"

type_synonym entry_attrs = "string \<rightharpoonup> attr_value"

type_synonym ldap_entry = "string \<rightharpoonup> string list"

text \<open>The directory: an association list, in the order a search enumerates it.\<close>

type_synonym ldap = "(dn \<times> ldap_entry) list"

text \<open>Python truthiness of a value: \<open>None\<close>, \<open>''\<close> and \<open>[]\<close> are false.\<close>

fun truthy :: "attr_value \<Rightarrow> bool" where
  "truthy NoneV = False"
| "truthy (Str s) = (s \<noteq> [])"
| "truthy (Lst l) = (l \<noteq> [])"

text \<open>
  Python's \<open>x in v\<close> for a string \<open>x\<close>: membership in a list, substring of a
  string, \<open>TypeError\<close> on \<open>None\<close>.
\<close>

fun py_in :: "string \<Rightarrow> attr_value \<Rightarrow> error + bool" where
  "py_in x NoneV = Inl TypeError"
| "py_in x (Str s) = Inr (sublist x s)"
| "py_in x (Lst l) = Inr (x \<in> set l)"

text \<open>
  Lines 198-200 and 271-273:
  \<^verbatim>\<open>if 'locality' in entry_attrs:
      entry_attrs['l'] = entry_attrs['locality']
      del entry_attrs['locality']\<close>
\<close>

definition rename_locality :: "entry_attrs \<Rightarrow> entry_attrs" where
  "rename_locality entry_attrs =
     (case entry_attrs ''locality'' of
        None \<Rightarrow> entry_attrs
      | Some v \<Rightarrow> (entry_attrs(''l'' \<mapsto> v))(''locality'' := None))"

section \<open>The directory backend\<close>

text \<open>
  Modelled from the spec: the backend object \<open>ldap\<close> (ipaserver's ldap2 plugin) is
  not part of the sources; section 4.3 gives
  \<open>getEntry(identifier, fields) -> entry | NotFound\<close>. The entry returned holds the
  requested attributes that the stored entry has.
\<close>

definition get_entry :: "ldap \<Rightarrow> dn \<Rightarrow> string list \<Rightarrow> error + (dn \<times> ldap_entry)" where
  "get_entry ldap dn attrs_list =
     (case map_of ldap dn of
        None \<Rightarrow> Inl NotFound
      | Some e \<Rightarrow> Inr (dn, e |` set attrs_list))"

text \<open>
  Modelled from the spec: \<open>updateEntry\<close> of section 4.3. Every attribute of the
  payload replaces the stored one; an empty value removes it.
\<close>

fun attr_values :: "attr_value \<Rightarrow> string list" where
  "attr_values NoneV = []"
| "attr_values (Str s) = [s]"
| "attr_values (Lst l) = l"

definition merge_entry :: "ldap_entry \<Rightarrow> entry_attrs \<Rightarrow> ldap_entry" where
  "merge_entry old entry_attrs =
     (\<lambda>k. case entry_attrs k of
            None \<Rightarrow> old k
          | Some v \<Rightarrow> (if attr_values v = [] then None else Some (attr_values v)))"

definition update_entry :: "ldap \<Rightarrow> dn \<Rightarrow> entry_attrs \<Rightarrow> error + ldap" where
  "update_entry ldap dn entry_attrs =
     (case map_of ldap dn of
        None \<Rightarrow> Inl NotFound
      | Some old \<Rightarrow>
          Inr (map (\<lambda>(d, e). if d = dn then (d, merge_entry e entry_attrs) else (d, e)) ldap))"

section \<open>host\_mod.pre\_callback (lines 269-297)\<close>

text \<open>
  Lines 274-284. The principal name check reads the stored entry and raises
  \<open>ACIError\<close> when the stored entry has the attribute.
\<close>

definition mod_principal :: "ldap \<Rightarrow> dn \<Rightarrow> entry_attrs \<Rightarrow> error + (dn \<times> entry_attrs)" where
  "mod_principal ldap dn entry_attrs =
     (if ''krbprincipalname'' \<in> dom entry_attrs then
        (case get_entry ldap dn [''objectclass'', ''krbprincipalname''] of
           Inl e \<Rightarrow> Inl e
         | Inr (dn', entry_attrs_old) \<Rightarrow>
             if ''krbprincipalname'' \<in> dom entry_attrs_old then
               Inl (ACIError ''Principal name already set, it is unchangeable.'')
             else
               (case entry_attrs_old ''objectclass'' of
                  None \<Rightarrow> Inl (KeyError ''objectclass'')
                | Some obj_classes \<Rightarrow>
                    if ''krbprincipalaux'' \<notin> set obj_classes then
                      Inr (dn', entry_attrs(''objectclass'' \<mapsto>
                                   Lst (obj_classes @ [''krbprincipalaux''])))
                    else Inr (dn', entry_attrs)))
      else Inr (dn, entry_attrs))"

text \<open>
  Lines 285-295; \<open>entry_attrs.get('usercertificate')\<close> is \<open>None\<close>, hence false,
  when the key is missing. \<open>b64decode\<close> is Python's \<open>base64.b64decode\<close> (\<open>None\<close> when it
  raises \<open>TypeError\<close>); \<open>get_serial_number\<close> is \<open>x509.get_serial_number\<close> of the
  DER bytes, rendered by \<open>%s\<close> (\<open>None\<close> when the certificate does not parse). Both
  live outside the plugin and are parameters.
\<close>

definition mod_certificate ::
  "(attr_value \<Rightarrow> string option) \<Rightarrow> (string \<Rightarrow> string option) \<Rightarrow>
   ldap \<Rightarrow> dn \<Rightarrow> entry_attrs \<Rightarrow> error + (dn \<times> entry_attrs)" where
  "mod_certificate b64decode get_serial_number ldap dn entry_attrs =
     (case entry_attrs ''usercertificate'' of
        None \<Rightarrow> Inr (dn, entry_attrs)
      | Some cert \<Rightarrow>
          if truthy cert then
            (case get_entry ldap dn [''usercertificate''] of
               Inl e \<Rightarrow> Inl e
             | Inr (dn', entry_attrs_old) \<Rightarrow>
                 (case entry_attrs_old ''usercertificate'' of
                    Some [] \<Rightarrow> Inl IndexError
                  | Some (c # cs) \<Rightarrow>
                      (case get_serial_number c of
                         None \<Rightarrow> Inl CertificateError
                       | Some sn \<Rightarrow>
                           Inl (GenericError
                                 (''entry already has a certificate, serial number: '' @ sn)))
                  | None \<Rightarrow>
                      (case b64decode cert of
                         None \<Rightarrow> Inl TypeError
                       | Some der \<Rightarrow>
                           Inr (dn', entry_attrs(''usercertificate'' \<mapsto> Str der)))))
          else Inr (dn, entry_attrs))"

definition host_mod_pre_callback ::
  "(attr_value \<Rightarrow> string option) \<Rightarrow> (string \<Rightarrow> string option) \<Rightarrow>
   ldap \<Rightarrow> dn \<Rightarrow> entry_attrs \<Rightarrow> error + (dn \<times> entry_attrs)" where
  "host_mod_pre_callback b64decode get_serial_number ldap dn entry_attrs =
     (case mod_principal ldap dn (rename_locality entry_attrs) of
        Inl e \<Rightarrow> Inl e
      | Inr (dn', entry_attrs') \<Rightarrow>
          mod_certificate b64decode get_serial_number ldap dn' entry_attrs')"

text \<open>
  Modelled from the spec: \<open>LDAPUpdate.execute\<close> (ipalib/plugins/baseldap.py) is not
  part of the sources. Section 4.4, steps 3 and 4: the pre-hook runs first and may
  reject the operation; only then is the backend primitive invoked. The result is the
  outcome and the directory afterwards.
\<close>

definition host_mod_execute ::
  "(attr_value \<Rightarrow> string option) \<Rightarrow> (string \<Rightarrow> string option) \<Rightarrow>
   ldap \<Rightarrow> dn \<Rightarrow> entry_attrs \<Rightarrow> (error + dn) \<times> ldap" where
  "host_mod_execute b64decode get_serial_number ldap dn entry_attrs =
     (case host_mod_pre_callback b64decode get_serial_number ldap dn entry_attrs of
        Inl e \<Rightarrow> (Inl e, ldap)
      | Inr (dn', entry_attrs') \<Rightarrow>
          (case update_entry ldap dn' entry_attrs' of
             Inl e \<Rightarrow> (Inl e, ldap)
           | Inr ldap' \<Rightarrow> (Inr dn', ldap')))"

section \<open>host\_add.pre\_callback (lines 195-214)\<close>

text \<open>
  Lines 204-212: the Kerberos part of the add hook. \<open>key\<close> is \<open>keys[-1]\<close>, \<open>realm\<close>
  is \<open>self.api.env.realm\<close>. \<open>append\<close> and \<open>remove\<close> exist on lists only
  (\<open>AttributeError\<close> on a string); \<open>remove\<close> takes out the first occurrence.
\<close>

definition add_kerberos :: "string \<Rightarrow> string \<Rightarrow> entry_attrs \<Rightarrow> error + entry_attrs" where
  "add_kerberos realm key entry_attrs =
     (if ''userpassword'' \<notin> dom entry_attrs then
        (let e = entry_attrs(''krbprincipalname'' \<mapsto> Str (''host/'' @ key @ ''@'' @ realm)) in
         case e ''objectclass'' of
           None \<Rightarrow> Inl (KeyError ''objectclass'')
         | Some oc \<Rightarrow>
             (case py_in ''krbprincipalaux'' oc of
                Inl err \<Rightarrow> Inl err
              | Inr present \<Rightarrow>
                  if \<not> present then
                    (case oc of
                       Lst l \<Rightarrow>
                         Inr (e(''objectclass'' \<mapsto>
                                Lst ((l @ [''krbprincipalaux'']) @ [''krbprincipal''])))
                     | _ \<Rightarrow> Inl AttributeError)
                  else Inr e))
      else
        (case entry_attrs ''objectclass'' of
           None \<Rightarrow> Inl (KeyError ''objectclass'')
         | Some oc \<Rightarrow>
             (case py_in ''krbprincipalaux'' oc of
                Inl err \<Rightarrow> Inl err
              | Inr present \<Rightarrow>
                  if present then
                    (case oc of
                       Lst l \<Rightarrow>
                         Inr (entry_attrs(''objectclass'' \<mapsto>
                                Lst (remove1 ''krbprincipalaux'' l)))
                     | _ \<Rightarrow> Inl AttributeError)
                  else Inr entry_attrs)))"

text \<open>
  The whole hook. \<open>validate_host_dns\<close> is \<open>util.validate_host_dns\<close> (true when it
  returns, false when it raises); \<open>force\<close> is \<open>options.get('force', False)\<close>.
  \<open>keys[-1]\<close> raises \<open>IndexError\<close> on an empty tuple;
  \<open>keys[-1].split('.', 1)[0]\<close> is the part before the first dot.
\<close>

definition host_add_pre_callback ::
  "(string \<Rightarrow> bool) \<Rightarrow> string \<Rightarrow> dn \<Rightarrow> entry_attrs \<Rightarrow> string list \<Rightarrow> bool \<Rightarrow>
   error + (dn \<times> entry_attrs)" where
  "host_add_pre_callback validate_host_dns realm dn entry_attrs keys force =
     (if keys = [] then Inl IndexError
      else if \<not> force \<and> \<not> validate_host_dns (last keys) then Inl DNSError
      else
        (let e1 = rename_locality entry_attrs;
             e2 = e1(''cn'' \<mapsto> Str (last keys));
             e3 = e2(''serverhostname'' \<mapsto>
                       Str (takeWhile (\<lambda>c. c \<noteq> CHR ''.'') (last keys)))
         in case add_kerberos realm (last keys) e3 of
              Inl err \<Rightarrow> Inl err
            | Inr e4 \<Rightarrow> Inr (dn, e4(''managedby'' \<mapsto> Str dn))))"

text \<open>Line 97: the object classes of a host.\<close>

definition object_class :: "string list" where
  "object_class = [''ipaobject'', ''nshost'', ''ipahost'', ''pkiuser'', ''ipaservice'']"

text \<open>
  The two markers that lines 209-210 append together, and what it means for an
  \<open>objectclass\<close> value to hold them all or none of them.
\<close>

definition krb_markers :: "string list" where
  "krb_markers = [''krbprincipalaux'', ''krbprincipal'']"

fun markers_present :: "attr_value option \<Rightarrow> bool" where
  "markers_present (Some (Lst l)) = list_all (\<lambda>m. m \<in> set l) krb_markers"
| "markers_present _ = False"

fun markers_absent :: "attr_value option \<Rightarrow> bool" where
  "markers_absent (Some (Lst l)) = list_all (\<lambda>m. m \<notin> set l) krb_markers"
| "markers_absent _ = True"

text \<open>
  The object class that lines 208, 211 and 282 test, on a stored entry: it is there
  exactly when the entry has a principal name.
\<close>

definition entry_invariant :: "ldap_entry \<Rightarrow> bool" where
  "entry_invariant e =
     ((case e ''objectclass'' of
         None \<Rightarrow> False
       | Some ocs \<Rightarrow> ''krbprincipalaux'' \<in> set ocs) = (''krbprincipalname'' \<in> dom e))"

section \<open>host.get\_dn (lines 164-178)\<close>

text \<open>
  Modelled from the spec: \<open>findByAttribute(attributeName, value, objectClasses,
  fields, scope) -> entry | NotFound\<close> of section 4.3: the first entry below the
  base identifier that has the value for the attribute and all the object classes.
\<close>

definition entry_matches ::
  "string \<Rightarrow> string \<Rightarrow> string list \<Rightarrow> dn \<Rightarrow> dn \<times> ldap_entry \<Rightarrow> bool" where
  "entry_matches attr v classes base_dn de =
     (suffix base_dn (fst de)
      \<and> (case snd de attr of None \<Rightarrow> False | Some vs \<Rightarrow> v \<in> set vs)
      \<and> (case snd de ''objectclass'' of
           None \<Rightarrow> classes = []
         | Some ocs \<Rightarrow> list_all (\<lambda>c. c \<in> set ocs) classes))"

definition find_entry_by_attr ::
  "ldap \<Rightarrow> string \<Rightarrow> string \<Rightarrow> string list \<Rightarrow> string list \<Rightarrow> dn \<Rightarrow>
   error + (dn \<times> ldap_entry)" where
  "find_entry_by_attr ldap attr v classes attrs_list base_dn =
     (case List.find (entry_matches attr v classes base_dn) ldap of
        None \<Rightarrow> Inl NotFound
      | Some (d, e) \<Rightarrow> Inr (d, e |` set attrs_list))"

text \<open>
  \<open>keys\<close> is the tuple of the variadic parameter \<open>*keys\<close>: the assignment
  \<open>keys[-1] = keys[-1][:-1]\<close> of line 166 raises \<open>TypeError\<close>, a tuple supports no
  item assignment. \<open>super_get_dn\<close> is \<open>LDAPObject.get_dn\<close> and \<open>container_dn\<close> is
  \<open>api.env.container_host\<close>, both outside the plugin.
\<close>

definition host_get_dn ::
  "(string list \<Rightarrow> dn) \<Rightarrow> dn \<Rightarrow> ldap \<Rightarrow> string list \<Rightarrow> error + dn" where
  "host_get_dn super_get_dn container_dn ldap keys =
     (if keys = [] then Inl IndexError
      else if suffix ''.'' (last keys) then Inl TypeError
      else
        (let dn = super_get_dn keys in
         case get_entry ldap dn [''''] of
           Inr r \<Rightarrow> Inr dn
         | Inl err \<Rightarrow>
             if err = NotFound then
               (case find_entry_by_attr ldap ''serverhostname'' (last keys) object_class
                       [''''] container_dn of
                  Inr (dn', entry_attrs) \<Rightarrow> Inr dn'
                | Inl err' \<Rightarrow> if err' = NotFound then Inr dn else Inl err')
             else Inl err))"

section \<open>host\_find.pre\_callback (lines 311-315)\<close>

text \<open>
  Python's \<open>s.replace(old, new)\<close>: left to right, occurrences that do not overlap;
  an empty \<open>old\<close> matches before every character and at the end.
\<close>

fun py_replace :: "string \<Rightarrow> string \<Rightarrow> string \<Rightarrow> string" where
  "py_replace [] new s = new @ concat (map (\<lambda>c. c # new) s)"
| "py_replace (a # as) new [] = []"
| "py_replace (a # as) new (c # cs) =
     (if prefix (a # as) (c # cs)
      then new @ py_replace (a # as) new (drop (length as) cs)
      else c # py_replace (a # as) new cs)"

text \<open>The hook returns the new filter; \<open>attrs_list\<close> is changed in place.\<close>

definition host_find_pre_callback :: "string \<Rightarrow> string list \<Rightarrow> string \<times> string list" where
  "host_find_pre_callback filter_text attrs_list =
     (py_replace ''locality'' ''l'' filter_text,
      if ''locality'' \<in> set attrs_list
      then remove1 ''locality'' attrs_list @ [''l'']
      else attrs_list)"

text \<open>
  Modelled from the spec: the alias mapper of section 4.1, which is not part of the
  sources: \<open>toBackendName\<close> and \<open>toPublicName\<close> map the public name \<open>locality\<close>
  and the backend name \<open>l\<close> to each other and let every other name through; on a
  result entry the field stored under the backend name goes out under the public name.
\<close>

definition to_backend_name :: "string \<Rightarrow> string" where
  "to_backend_name name = (if name = ''locality'' then ''l'' else name)"

definition to_public_name :: "string \<Rightarrow> string" where
  "to_public_name name = (if name = ''l'' then ''locality'' else name)"

definition publish :: "ldap_entry \<Rightarrow> ldap_entry" where
  "publish e =
     (\<lambda>name. if name = to_public_name ''l'' then e ''l''
             else if name = ''l'' then None
             else e name)"

text \<open>
  Modelled from the spec: \<open>LDAPSearch.execute\<close> (ipalib/plugins/baseldap.py) is not
  part of the sources. Section 4.4, steps 3 to 6, with sections 4.1 (d) and 4.5: the
  pre-hook rewrites the query, the backend searches, find has no post-hook, and the
  entries go out with their fields under the public names. \<open>search\<close> is the backend's
  search by filter and attribute list.
\<close>

definition host_find_execute ::
  "(string \<Rightarrow> string list \<Rightarrow> ldap_entry list) \<Rightarrow> string \<Rightarrow> string list \<Rightarrow> ldap_entry list" where
  "host_find_execute search filter_text attrs_list =
     (case host_find_pre_callback filter_text attrs_list of
        (filter_text', attrs_list') \<Rightarrow> map publish (search filter_text' attrs_list'))"

text \<open>
  Modelled from the spec: a backend search that returns, of every stored entry the
  filter matches, the requested attributes. What a filter text matches is left to
  \<open>matches\<close>.
\<close>

definition search_entries ::
  "(string \<Rightarrow> ldap_entry \<Rightarrow> bool) \<Rightarrow> ldap \<Rightarrow> string \<Rightarrow> string list \<Rightarrow> ldap_entry list" where
  "search_entries matches ldap filter_text attrs_list =
     map (\<lambda>(d, e). e |` set attrs_list) (filter (\<lambda>(d, e). matches filter_text e) ldap)"

text \<open>
  A text cut at the occurrences of a separator: \<open>join_with sep [p, q, r]\<close> is
  \<open>p sep q sep r\<close>, as Python's \<open>sep.join\<close>.
\<close>

fun join_with :: "string \<Rightarrow> string list \<Rightarrow> string" where
  "join_with sep [] = []"
| "join_with sep [p] = p"
| "join_with sep (p # q # ps) = p @ sep @ join_with sep (q # ps)"


section \<open>host\_del.pre\_callback (lines 226-248)\<close>

text \<open>Lines 82-88: a host name without a dot is rejected with a message.\<close>

definition validate_host :: "string \<Rightarrow> string option" where
  "validate_host fqdn =
     (if CHR ''.'' \<notin> set fqdn then Some ''Fully-qualified hostname required'' else None)"

text \<open>Python's \<open>lower()\<close> on the ASCII letters.\<close>

definition lower_char :: "char \<Rightarrow> char" where
  "lower_char c =
     (let n = (of_char c :: nat) in if 65 \<le> n \<and> n \<le> 90 then char_of (n + 32) else c)"

definition py_lower :: "string \<Rightarrow> string" where
  "py_lower s = map lower_char s"

text \<open>
  The commands \<open>host_show\<close>, \<open>service_find\<close> and \<open>service_del\<close> of
  \<open>api.Command\<close> and the function \<open>split_principal\<close> belong to other plugins. They
  are parameters that act on a state \<open>'w\<close> of the outside world: a call returns its
  outcome and the state afterwards.

  Lines 228-232: the host name whose services are removed.
\<close>

definition del_fqdn ::
  "('w \<Rightarrow> string \<Rightarrow> error + ldap_entry) \<Rightarrow> 'w \<Rightarrow> string list \<Rightarrow> error + string" where
  "del_fqdn host_show w keys =
     (if keys = [] then Inl IndexError
      else if validate_host (last keys) \<noteq> None then
        (case host_show w (last keys) of
           Inl err \<Rightarrow> Inl err
         | Inr hostentry \<Rightarrow>
             (case hostentry ''fqdn'' of
                None \<Rightarrow> Inl (KeyError ''fqdn'')
              | Some [] \<Rightarrow> Inl IndexError
              | Some (f # fs) \<Rightarrow> Inr f))
      else Inr (last keys))"

text \<open>Lines 243-247: the \<open>for\<close> loop over one page of services.\<close>

fun del_services ::
  "('w \<Rightarrow> string \<Rightarrow> error option \<times> 'w) \<Rightarrow> (string \<Rightarrow> (string \<times> string \<times> string) option) \<Rightarrow>
   string \<Rightarrow> ldap_entry list \<Rightarrow> 'w \<Rightarrow> error option \<times> 'w" where
  "del_services service_del split_principal fqdn [] w = (None, w)"
| "del_services service_del split_principal fqdn (entry_attrs # services) w =
     (case entry_attrs ''krbprincipalname'' of
        None \<Rightarrow> (Some (KeyError ''krbprincipalname''), w)
      | Some [] \<Rightarrow> (Some IndexError, w)
      | Some (princ # ps) \<Rightarrow>
          (case split_principal princ of
             None \<Rightarrow> (Some MalformedServicePrincipal, w)
           | Some (service, hostname, realm) \<Rightarrow>
               if py_lower hostname = fqdn then
                 (case service_del w princ of
                    (Some err, w') \<Rightarrow> (Some err, w')
                  | (None, w') \<Rightarrow> del_services service_del split_principal fqdn services w')
               else del_services service_del split_principal fqdn services w))"

text \<open>
  Lines 245-246: the test that selects the services of the host: the host name of the
  principal, in lower case, is the host name of the host.
\<close>

definition owned_by ::
  "(string \<Rightarrow> (string \<times> string \<times> string) option) \<Rightarrow> string \<Rightarrow> string \<Rightarrow> bool" where
  "owned_by split_principal fqdn princ =
     (case split_principal princ of
        None \<Rightarrow> False
      | Some (service, hostname, realm) \<Rightarrow> py_lower hostname = fqdn)"

text \<open>
  Lines 234-247: the \<open>while truncated\<close> loop. Only \<open>NotFound\<close> of the search is
  caught and ends the loop; every other exception leaves the hook. A loop that never
  ends has the value \<open>None\<close>.
\<close>

partial_function (option) service_loop ::
  "('w \<Rightarrow> string \<Rightarrow> (error + bool \<times> ldap_entry list) \<times> 'w) \<Rightarrow>
   ('w \<Rightarrow> string \<Rightarrow> error option \<times> 'w) \<Rightarrow> (string \<Rightarrow> (string \<times> string \<times> string) option) \<Rightarrow>
   string \<Rightarrow> 'w \<Rightarrow> (error option \<times> 'w) option" where
  "service_loop service_find service_del split_principal fqdn w =
     (case service_find w fqdn of
        (Inl err, w') \<Rightarrow> Some (if err = NotFound then None else Some err, w')
      | (Inr (truncated, services), w') \<Rightarrow>
          (case del_services service_del split_principal fqdn services w' of
             (Some err, w'') \<Rightarrow> Some (Some err, w'')
           | (None, w'') \<Rightarrow>
               if truncated
               then service_loop service_find service_del split_principal fqdn w''
               else Some (None, w'')))"

definition host_del_pre_callback ::
  "('w \<Rightarrow> string \<Rightarrow> error + ldap_entry) \<Rightarrow>
   ('w \<Rightarrow> string \<Rightarrow> (error + bool \<times> ldap_entry list) \<times> 'w) \<Rightarrow>
   ('w \<Rightarrow> string \<Rightarrow> error option \<times> 'w) \<Rightarrow> (string \<Rightarrow> (string \<times> string \<times> string) option) \<Rightarrow>
   'w \<Rightarrow> dn \<Rightarrow> string list \<Rightarrow> ((error + dn) \<times> 'w) option" where
  "host_del_pre_callback host_show service_find service_del split_principal w dn keys =
     (case del_fqdn host_show w keys of
        Inl err \<Rightarrow> Some (Inl err, w)
      | Inr fqdn \<Rightarrow>
          (case service_loop service_find service_del split_principal fqdn w of
             None \<Rightarrow> None
           | Some (Some err, w') \<Rightarrow> Some (Inl err, w')
           | Some (None, w') \<Rightarrow> Some (Inr dn, w')))"

subsection \<open>A directory of hosts and services\<close>

text \<open>
  Modelled from the spec: the service plugin and \<open>LDAPDelete.execute\<close> are not part
  of the sources. The world holds the host entries and the principals of the service
  entries. Section 4.3: \<open>searchPaginated(filter, fields, scope) -> (entries,
  truncated)\<close> returns a page of at most \<open>sizelimit\<close> of the services in the scope of
  the host name and says whether more were left out; \<open>deleteEntry\<close> removes an entry
  and fails with \<open>NotFound\<close> when there is none. Which services a search for a host
  name covers is left to \<open>in_scope\<close>.
\<close>

record world =
  host_entries :: ldap
  service_principals :: "string list"

definition service_entry :: "string \<Rightarrow> ldap_entry" where
  "service_entry princ = [''krbprincipalname'' \<mapsto> [princ]]"

definition service_find_paged ::
  "nat \<Rightarrow> (string \<Rightarrow> string \<Rightarrow> bool) \<Rightarrow> world \<Rightarrow> string \<Rightarrow>
   (error + bool \<times> ldap_entry list) \<times> world" where
  "service_find_paged sizelimit in_scope w fqdn =
     (let found = filter (in_scope fqdn) (service_principals w)
      in (Inr (sizelimit < length found, map service_entry (take sizelimit found)), w))"

definition service_del_entry :: "world \<Rightarrow> string \<Rightarrow> error option \<times> world" where
  "service_del_entry w princ =
     (if princ \<in> set (service_principals w)
      then (None, w\<lparr>service_principals := removeAll princ (service_principals w)\<rparr>)
      else (Some NotFound, w))"

definition delete_entry :: "world \<Rightarrow> dn \<Rightarrow> error option \<times> world" where
  "delete_entry w dn =
     (if dn \<in> fst ` set (host_entries w)
      then (None, w\<lparr>host_entries := filter (\<lambda>(d, e). d \<noteq> dn) (host_entries w)\<rparr>)
      else (Some NotFound, w))"

text \<open>
  Modelled from the spec: section 4.4, steps 3 and 4, for delete: the pre-hook runs,
  and the backend primitive that deletes the host entry is invoked only when the hook
  has returned.
\<close>

definition host_del_execute ::
  "(world \<Rightarrow> string \<Rightarrow> error + ldap_entry) \<Rightarrow>
   (world \<Rightarrow> string \<Rightarrow> (error + bool \<times> ldap_entry list) \<times> world) \<Rightarrow>
   (world \<Rightarrow> string \<Rightarrow> error option \<times> world) \<Rightarrow>
   (string \<Rightarrow> (string \<times> string \<times> string) option) \<Rightarrow>
   world \<Rightarrow> dn \<Rightarrow> string list \<Rightarrow> ((error + dn) \<times> world) option" where
  "host_del_execute host_show service_find service_del split_principal w dn keys =
     (case host_del_pre_callback host_show service_find service_del split_principal w dn keys of
        None \<Rightarrow> None
      | Some (Inl err, w') \<Rightarrow> Some (Inl err, w')
      | Some (Inr dn', w') \<Rightarrow>
          (case delete_entry w' dn' of
             (Some err, w'') \<Rightarrow> Some (Inl err, w'')
           | (None, w'') \<Rightarrow> Some (Inr dn', w'')))"

text \<open>
  A sequence of search responses as a world: the state is the number of searches made
  so far, the \<open>n\<close>-th search gets the \<open>n\<close>-th response, a deletion succeeds.
\<close>

definition find_response ::
  "(nat \<Rightarrow> error + bool \<times> ldap_entry list) \<Rightarrow> nat \<Rightarrow> string \<Rightarrow>
   (error + bool \<times> ldap_entry list) \<times> nat" where
  "find_response responses n fqdn = (responses n, Suc n)"

definition del_ok :: "nat \<Rightarrow> string \<Rightarrow> error option \<times> nat" where
  "del_ok n princ = (None, n)"

text \<open>
  The principal \<open>service/hostname@realm\<close> of lines 244-245 taken apart at the first
  \<open>/\<close> and the first \<open>@\<close>, with the host name in lower case; used for examples.
\<close>

definition split_example :: "string \<Rightarrow> (string \<times> string \<times> string) option" where
  "split_example princ =
     (if CHR ''/'' \<in> set princ
      then (let rest = tl (dropWhile (\<lambda>c. c \<noteq> CHR ''/'') princ)
            in Some (takeWhile (\<lambda>c. c \<noteq> CHR ''/'') princ,
                     py_lower (takeWhile (\<lambda>c. c \<noteq> CHR ''@'') rest),
                     drop 1 (dropWhile (\<lambda>c. c \<noteq> CHR ''@'') rest)))
      else None)"

text \<open>
  What the loop does with one response of such a sequence: it goes on after a
  truncated page whose services all go through, and otherwise stops, with the error
  that leaves the hook, if any (\<open>NotFound\<close> of the search ends the loop without one).
\<close>

definition continues ::
  "(string \<Rightarrow> (string \<times> string \<times> string) option) \<Rightarrow> string \<Rightarrow>
   (error + bool \<times> ldap_entry list) \<Rightarrow> bool" where
  "continues split_principal fqdn response =
     (case response of
        Inl err \<Rightarrow> False
      | Inr (truncated, services) \<Rightarrow>
          truncated \<and> fst (del_services del_ok split_principal fqdn services (0::nat)) = None)"

definition page_outcome ::
  "(string \<Rightarrow> (string \<times> string \<times> string) option) \<Rightarrow> string \<Rightarrow>
   (error + bool \<times> ldap_entry list) \<Rightarrow> error option" where
  "page_outcome split_principal fqdn response =
     (case response of
        Inl err \<Rightarrow> (if err = NotFound then None else Some err)
      | Inr (truncated, services) \<Rightarrow>
          fst (del_services del_ok split_principal fqdn services (0::nat)))"

section \<open>Example data\<close>

text \<open>
  A way to build identifiers from keys and a directory with one host,
  \<open>web.lab.example.com\<close>, whose short name is \<open>web\<close>.
\<close>

definition example_dn :: "string list \<Rightarrow> dn" where
  "example_dn keys = ''fqdn='' @ last keys @ '',cn=computers''"

definition example_hosts :: ldap where
  "example_hosts =
     [(''fqdn=web.lab.example.com,cn=computers'',
       [''objectclass'' \<mapsto> object_class, ''fqdn'' \<mapsto> [''web.lab.example.com''],
        ''serverhostname'' \<mapsto> [''web''], ''l'' \<mapsto> [''Dallas'']])]"

text \<open>A filter semantics under which every entry matches.\<close>

definition match_all :: "string \<Rightarrow> ldap_entry \<Rightarrow> bool" where
  "match_all filter_text e = True"

text \<open>
  A search for a host name that finds the principals in which the text of the name
  occurs, as a search by substring does; the host \<open>h.example.com\<close> with two services
  of its own, the service of \<open>ssh.example.com\<close>, which such a search for
  \<open>h.example.com\<close> finds as well, and the service of \<open>other.example.com\<close>, which it
  does not find; and a \<open>host_show\<close> that finds nothing.
\<close>

definition text_search :: "string \<Rightarrow> string \<Rightarrow> bool" where
  "text_search fqdn princ = sublist fqdn princ"

definition example_world :: world where
  "example_world =
     \<lparr>host_entries =
        [(''fqdn=h.example.com,cn=computers'', [''fqdn'' \<mapsto> [''h.example.com'']])],
      service_principals =
        [''HTTP/ssh.example.com@EXAMPLE.COM'', ''HTTP/h.example.com@EXAMPLE.COM'',
         ''HTTP/other.example.com@EXAMPLE.COM'', ''ldap/h.example.com@EXAMPLE.COM'']\<rparr>"

definition no_host_show :: "world \<Rightarrow> string \<Rightarrow> error + ldap_entry" where
  "no_host_show w key = Inl NotFound"

text \<open>Two search responses: a truncated page with one service, then an empty last page.\<close>

definition example_responses :: "nat \<Rightarrow> error + bool \<times> ldap_entry list" where
  "example_responses n =
     (if n = 0 then Inr (True, [service_entry ''HTTP/h.example.com@EXAMPLE.COM''])
      else Inr (False, []))"


section \<open>Properties of host\_mod\<close>

lemma rename_locality_other:
  "k \<noteq> ''l'' \<Longrightarrow> k \<noteq> ''locality'' \<Longrightarrow> rename_locality ea k = ea k"
  by (simp add: rename_locality_def split: option.splits)

lemma rename_locality_dom_other:
  "k \<noteq> ''l'' \<Longrightarrow> k \<noteq> ''locality'' \<Longrightarrow> (k \<in> dom (rename_locality ea)) = (k \<in> dom ea)"
  by (simp add: dom_def rename_locality_other)

lemma get_entry_Some:
  "map_of ldap dn = Some old \<Longrightarrow> get_entry ldap dn attrs = Inr (dn, old |` set attrs)"
  by (simp add: get_entry_def)

lemma mod_principal_stored:
  assumes "map_of ldap dn = Some old" "''krbprincipalname'' \<in> dom old"
    "''krbprincipalname'' \<in> dom ea"
  shows "mod_principal ldap dn ea =
    Inl (ACIError ''Principal name already set, it is unchangeable.'')"
  using assms by (simp add: mod_principal_def get_entry_Some)

lemma mod_principal_not_ACI:
  assumes "map_of ldap dn = Some old" "''krbprincipalname'' \<notin> dom old"
  shows "mod_principal ldap dn ea \<noteq> Inl (ACIError m)"
  using assms by (simp add: mod_principal_def get_entry_Some split: option.splits)

lemma mod_principal_dn:
  "mod_principal ldap dn ea = Inr (dn', ea') \<Longrightarrow> dn' = dn"
  by (auto simp: mod_principal_def get_entry_def split: if_splits option.splits sum.splits)

lemma mod_certificate_not_ACI:
  "mod_certificate b64 sn ldap dn ea \<noteq> Inl (ACIError m)"
  by (simp add: mod_certificate_def get_entry_def split: option.splits list.splits)

lemma update_entry_not_ACI:
  "update_entry ldap dn ea \<noteq> Inl (ACIError m)"
  by (simp add: update_entry_def split: option.splits)

text \<open>
  C1. A host whose stored entry has \<open>krbprincipalname\<close>: a modify whose payload holds
  the key \<open>krbprincipalname\<close> ends with the error
  \<open>ACIError 'Principal name already set, it is unchangeable.'\<close>, raised by the
  pre-hook, so that no update reaches the directory, which is left as it was. When the
  stored entry has no \<open>krbprincipalname\<close>, the modify never ends with that error.
\<close>

theorem principal_immutable:
  assumes "map_of ldap dn = Some old" and "''krbprincipalname'' \<in> dom entry_attrs"
  shows "if ''krbprincipalname'' \<in> dom old
         then host_mod_execute b64decode get_serial_number ldap dn entry_attrs =
                (Inl (ACIError ''Principal name already set, it is unchangeable.''), ldap)
         else \<forall>m. fst (host_mod_execute b64decode get_serial_number ldap dn entry_attrs) \<noteq>
                Inl (ACIError m)"
proof (cases "''krbprincipalname'' \<in> dom old")
  case True
  have "''krbprincipalname'' \<in> dom (rename_locality entry_attrs)"
    using assms(2) by (simp add: rename_locality_dom_other)
  with assms(1) True have "mod_principal ldap dn (rename_locality entry_attrs) =
      Inl (ACIError ''Principal name already set, it is unchangeable.'')"
    by (rule mod_principal_stored)
  then show ?thesis using True
    by (simp add: host_mod_execute_def host_mod_pre_callback_def)
next
  case False
  have "fst (host_mod_execute b64decode get_serial_number ldap dn entry_attrs) \<noteq>
      Inl (ACIError m)" for m
    using mod_principal_not_ACI [OF assms(1) False, of "rename_locality entry_attrs" m]
      mod_certificate_not_ACI update_entry_not_ACI
    by (auto simp: host_mod_execute_def host_mod_pre_callback_def
        split: sum.splits prod.splits)
  then show ?thesis using False by simp
qed

theorem principal_immutable_witness:
  "host_mod_execute (\<lambda>v. None) (\<lambda>c. None)
     [(''fqdn=h.example.com'',
       [''objectclass'' \<mapsto> [''ipahost'', ''krbprincipalaux''],
        ''krbprincipalname'' \<mapsto> [''host/h.example.com@EXAMPLE.COM'']])]
     ''fqdn=h.example.com''
     [''krbprincipalname'' \<mapsto> Str ''host/other.example.com@EXAMPLE.COM'']
   = (Inl (ACIError ''Principal name already set, it is unchangeable.''),
      [(''fqdn=h.example.com'',
       [''objectclass'' \<mapsto> [''ipahost'', ''krbprincipalaux''],
        ''krbprincipalname'' \<mapsto> [''host/h.example.com@EXAMPLE.COM'']])])
   \<and> fst (host_mod_execute (\<lambda>v. None) (\<lambda>c. None)
     [(''fqdn=h.example.com'', [''objectclass'' \<mapsto> [''ipahost'']])]
     ''fqdn=h.example.com''
     [''krbprincipalname'' \<mapsto> Str ''host/h.example.com@EXAMPLE.COM''])
     \<noteq> Inl (ACIError ''Principal name already set, it is unchangeable.'')"
  using principal_immutable [of
      "[(''fqdn=h.example.com'',
       [''objectclass'' \<mapsto> [''ipahost'', ''krbprincipalaux''],
        ''krbprincipalname'' \<mapsto> [''host/h.example.com@EXAMPLE.COM'']])]"
      "''fqdn=h.example.com''"
      "[''objectclass'' \<mapsto> [''ipahost'', ''krbprincipalaux''],
        ''krbprincipalname'' \<mapsto> [''host/h.example.com@EXAMPLE.COM'']]"
      "[''krbprincipalname'' \<mapsto> Str ''host/other.example.com@EXAMPLE.COM'']"
      "\<lambda>v. None" "\<lambda>c. None"]
    principal_immutable [of
      "[(''fqdn=h.example.com'', [''objectclass'' \<mapsto> [''ipahost'']])]"
      "''fqdn=h.example.com''"
      "[''objectclass'' \<mapsto> [''ipahost'']]"
      "[''krbprincipalname'' \<mapsto> Str ''host/h.example.com@EXAMPLE.COM'']"
      "\<lambda>v. None" "\<lambda>c. None"]
  by simp

lemma mod_principal_keeps:
  "mod_principal ldap dn ea = Inr (dn', ea') \<Longrightarrow> k \<noteq> ''objectclass'' \<Longrightarrow> ea' k = ea k"
  by (auto simp: mod_principal_def get_entry_def split: if_splits option.splits sum.splits)

lemma mod_principal_not_Generic:
  "mod_principal ldap dn ea \<noteq> Inl (GenericError m)"
  by (simp add: mod_principal_def get_entry_def split: option.splits)

lemma mod_certificate_falsy:
  "ea ''usercertificate'' = Some cert \<Longrightarrow> \<not> truthy cert \<Longrightarrow>
   mod_certificate b64 sn ldap dn ea = Inr (dn, ea)"
  by (simp add: mod_certificate_def)

text \<open>
  C10. A modify whose payload holds the certificate field with an empty value
  (\<open>None\<close>, \<open>''\<close> or \<open>[]\<close>): the certificate step is skipped, whatever the
  directory stores. The hook does exactly what its principal step does, it never ends
  with the duplicate error, and on success the field has the value it came with, not a
  decoded one.
\<close>

theorem empty_certificate_skipped:
  assumes "entry_attrs ''usercertificate'' = Some cert" and "\<not> truthy cert"
  shows "host_mod_pre_callback b64decode get_serial_number ldap dn entry_attrs =
           mod_principal ldap dn (rename_locality entry_attrs)
       \<and> (\<forall>m. host_mod_pre_callback b64decode get_serial_number ldap dn entry_attrs \<noteq>
             Inl (GenericError m))
       \<and> (\<forall>dn' ea'. host_mod_pre_callback b64decode get_serial_number ldap dn entry_attrs =
             Inr (dn', ea') \<longrightarrow> ea' ''usercertificate'' = Some cert)"
proof -
  let ?p = "mod_principal ldap dn (rename_locality entry_attrs)"
  have keep: "ea' ''usercertificate'' = Some cert" if "?p = Inr (dn', ea')" for dn' ea'
    using mod_principal_keeps [OF that, of "''usercertificate''"] assms(1)
    by (simp add: rename_locality_other)
  have eq: "host_mod_pre_callback b64decode get_serial_number ldap dn entry_attrs = ?p"
  proof (cases ?p)
    case (Inl e)
    then show ?thesis by (simp add: host_mod_pre_callback_def)
  next
    case (Inr r)
    obtain dn' ea' where r: "r = (dn', ea')" by (cases r)
    have "mod_certificate b64decode get_serial_number ldap dn' ea' = Inr (dn', ea')"
      using keep Inr r assms(2) by (simp add: mod_certificate_falsy)
    then show ?thesis using Inr r by (simp add: host_mod_pre_callback_def)
  qed
  show ?thesis using eq keep mod_principal_not_Generic by simp
qed

theorem empty_certificate_skipped_witness:
  "host_mod_pre_callback (\<lambda>v. Some ''decoded'') (\<lambda>c. Some ''42'')
     [(''fqdn=h.example.com'',
       [''objectclass'' \<mapsto> [''ipahost''], ''usercertificate'' \<mapsto> [''DER'']])]
     ''fqdn=h.example.com'' [''usercertificate'' \<mapsto> Str '''']
   = Inr (''fqdn=h.example.com'', [''usercertificate'' \<mapsto> Str ''''])"
  using empty_certificate_skipped [of "[''usercertificate'' \<mapsto> Str '''']" "Str ''''"
      "\<lambda>v. Some ''decoded''" "\<lambda>c. Some ''42''"
      "[(''fqdn=h.example.com'',
       [''objectclass'' \<mapsto> [''ipahost''], ''usercertificate'' \<mapsto> [''DER'']])]"
      "''fqdn=h.example.com''"]
  by (simp add: mod_principal_def rename_locality_def)

lemma mod_principal_pass:
  assumes "map_of ldap dn = Some old"
    and "''krbprincipalname'' \<in> dom ea \<longrightarrow>
           ''krbprincipalname'' \<notin> dom old \<and> ''objectclass'' \<in> dom old"
  shows "\<exists>ea'. mod_principal ldap dn ea = Inr (dn, ea') \<and>
           ea' ''usercertificate'' = ea ''usercertificate''"
proof (cases "''krbprincipalname'' \<in> dom ea")
  case False
  then show ?thesis by (simp add: mod_principal_def)
next
  case True
  with assms(2) obtain ocs where "''krbprincipalname'' \<notin> dom old"
    and "old ''objectclass'' = Some ocs" by auto
  with True assms(1) show ?thesis
    by (cases "''krbprincipalaux'' \<in> set ocs") (simp_all add: mod_principal_def get_entry_Some)
qed

lemma map_of_map_upd:
  "map_of ldap dn = Some old \<Longrightarrow>
   map_of (map (\<lambda>(d, e). if d = dn then (d, f e) else (d, e)) ldap) dn = Some (f old)"
  by (induction ldap) (auto split: if_splits)

text \<open>
  C2, amended. A host whose stored entry has a certificate, and a modify whose payload
  gives the certificate field a non-empty value and passes the principal check: the
  modify ends with \<open>GenericError 'entry already has a certificate, serial number: N'\<close>,
  \<open>N\<close> the serial number of the stored certificate, and the directory is left as it
  was. When no certificate is stored, the hook replaces the value by its base64
  decoding, and that is what the update writes.
\<close>

theorem certificate_write_once:
  assumes "map_of ldap dn = Some old"
    and "entry_attrs ''usercertificate'' = Some cert" and "truthy cert"
    and "''krbprincipalname'' \<in> dom entry_attrs \<longrightarrow>
           ''krbprincipalname'' \<notin> dom old \<and> ''objectclass'' \<in> dom old"
  shows "(\<forall>c cs sn. old ''usercertificate'' = Some (c # cs) \<longrightarrow> get_serial_number c = Some sn \<longrightarrow>
            host_mod_execute b64decode get_serial_number ldap dn entry_attrs =
              (Inl (GenericError (''entry already has a certificate, serial number: '' @ sn)),
               ldap))
       \<and> (\<forall>der. old ''usercertificate'' = None \<longrightarrow> b64decode cert = Some der \<longrightarrow>
            (\<exists>ea'. host_mod_pre_callback b64decode get_serial_number ldap dn entry_attrs =
                    Inr (dn, ea') \<and> ea' ''usercertificate'' = Some (Str der))
          \<and> (\<exists>ldap' e. host_mod_execute b64decode get_serial_number ldap dn entry_attrs =
                    (Inr dn, ldap') \<and> map_of ldap' dn = Some e \<and>
                    e ''usercertificate'' = Some [der]))"
proof -
  have "''krbprincipalname'' \<in> dom (rename_locality entry_attrs) \<longrightarrow>
           ''krbprincipalname'' \<notin> dom old \<and> ''objectclass'' \<in> dom old"
    using assms(4) by (simp add: rename_locality_dom_other)
  from mod_principal_pass [OF assms(1) this]
  obtain ea1 where p: "mod_principal ldap dn (rename_locality entry_attrs) = Inr (dn, ea1)"
    and c1: "ea1 ''usercertificate'' = Some cert"
    using assms(2) by (auto simp: rename_locality_other)
  have pre: "host_mod_pre_callback b64decode get_serial_number ldap dn entry_attrs =
      mod_certificate b64decode get_serial_number ldap dn ea1"
    using p by (simp add: host_mod_pre_callback_def)
  have dup: "host_mod_execute b64decode get_serial_number ldap dn entry_attrs =
      (Inl (GenericError (''entry already has a certificate, serial number: '' @ sn)), ldap)"
    if "old ''usercertificate'' = Some (c # cs)" "get_serial_number c = Some sn" for c cs sn
    using that c1 assms(1,3) pre
    by (simp add: host_mod_execute_def mod_certificate_def get_entry_Some)
  have dec: "host_mod_pre_callback b64decode get_serial_number ldap dn entry_attrs =
      Inr (dn, ea1(''usercertificate'' \<mapsto> Str der))"
    if "old ''usercertificate'' = None" "b64decode cert = Some der" for der
    using that c1 assms(1,3) pre
    by (simp add: mod_certificate_def get_entry_Some)
  have upd: "\<exists>ldap' e. host_mod_execute b64decode get_serial_number ldap dn entry_attrs =
                    (Inr dn, ldap') \<and> map_of ldap' dn = Some e \<and>
                    e ''usercertificate'' = Some [der]"
    if "old ''usercertificate'' = None" "b64decode cert = Some der" for der
    using dec [OF that] assms(1)
    by (simp add: host_mod_execute_def update_entry_def map_of_map_upd merge_entry_def)
  show ?thesis using dup dec upd by auto
qed

theorem certificate_write_once_witness:
  "host_mod_execute (\<lambda>v. Some ''decoded'') (\<lambda>c. Some ''42'')
     [(''fqdn=h.example.com'',
       [''objectclass'' \<mapsto> [''ipahost''], ''usercertificate'' \<mapsto> [''DER'']])]
     ''fqdn=h.example.com'' [''usercertificate'' \<mapsto> Str ''TUlJ'']
   = (Inl (GenericError ''entry already has a certificate, serial number: 42''),
      [(''fqdn=h.example.com'',
       [''objectclass'' \<mapsto> [''ipahost''], ''usercertificate'' \<mapsto> [''DER'']])])
   \<and> (\<exists>ea'. host_mod_pre_callback (\<lambda>v. Some ''decoded'') (\<lambda>c. Some ''42'')
     [(''fqdn=h.example.com'', [''objectclass'' \<mapsto> [''ipahost'']])]
     ''fqdn=h.example.com'' [''usercertificate'' \<mapsto> Str ''TUlJ'']
       = Inr (''fqdn=h.example.com'', ea') \<and> ea' ''usercertificate'' = Some (Str ''decoded''))"
  using certificate_write_once [of
      "[(''fqdn=h.example.com'',
       [''objectclass'' \<mapsto> [''ipahost''], ''usercertificate'' \<mapsto> [''DER'']])]"
      "''fqdn=h.example.com''"
      "[''objectclass'' \<mapsto> [''ipahost''], ''usercertificate'' \<mapsto> [''DER'']]"
      "[''usercertificate'' \<mapsto> Str ''TUlJ'']" "Str ''TUlJ''"
      "\<lambda>c. Some ''42''" "\<lambda>v. Some ''decoded''"]
    certificate_write_once [of
      "[(''fqdn=h.example.com'', [''objectclass'' \<mapsto> [''ipahost'']])]"
      "''fqdn=h.example.com''"
      "[''objectclass'' \<mapsto> [''ipahost'']]"
      "[''usercertificate'' \<mapsto> Str ''TUlJ'']" "Str ''TUlJ''"
      "\<lambda>c. Some ''42''" "\<lambda>v. Some ''decoded''"]
  by simp

text \<open>
  C2 as stated fails: the payload sets the certificate field to \<open>None\<close>, a
  certificate is stored, and the modify does not fail.
\<close>

theorem certificate_write_once_counterexample:
  "fst (host_mod_execute (\<lambda>v. None) (\<lambda>c. Some ''42'')
     [(''fqdn=h.example.com'',
       [''objectclass'' \<mapsto> [''ipahost''], ''usercertificate'' \<mapsto> [''DER'']])]
     ''fqdn=h.example.com'' [''usercertificate'' \<mapsto> NoneV])
   = Inr ''fqdn=h.example.com''"
  by (simp add: host_mod_execute_def host_mod_pre_callback_def mod_principal_def
      mod_certificate_def rename_locality_def update_entry_def)

section \<open>Properties of host.get\_dn\<close>

text \<open>
  C7. The claim: a key that ends in \<open>.\<close> is stripped of it and resolves like the
  key without it. The code: line 166 assigns to an item of the tuple \<open>keys\<close>, which
  raises \<open>TypeError\<close>, so the key \<open>name.example.com.\<close> resolves to nothing, in any
  directory.
\<close>

theorem trailing_dot_raises:
  "host_get_dn super_get_dn container_dn ldap [''name.example.com.''] = Inl TypeError"
  by (simp add: host_get_dn_def suffix_def)

text \<open>
  C8, amended. For a key that does not end in \<open>.\<close> and whose own identifier has no
  entry, the resolver searches the host entries below the container for the short name
  attribute \<open>serverhostname\<close> equal to the whole key, not to its first label. It
  returns the identifier of the first such entry of the directory and, when there is
  none, the identifier built from the key: it never answers \<open>NotFound\<close>.
\<close>

theorem fallback_whole_key:
  assumes "keys \<noteq> []" and "\<not> suffix ''.'' (last keys)"
    and "map_of ldap (super_get_dn keys) = None"
  shows "if \<exists>de \<in> set ldap. entry_matches ''serverhostname'' (last keys) object_class container_dn de
         then \<exists>i < length ldap.
                host_get_dn super_get_dn container_dn ldap keys = Inr (fst (ldap ! i))
              \<and> entry_matches ''serverhostname'' (last keys) object_class container_dn (ldap ! i)
              \<and> (\<forall>j < i. \<not> entry_matches ''serverhostname'' (last keys) object_class
                               container_dn (ldap ! j))
         else host_get_dn super_get_dn container_dn ldap keys = Inr (super_get_dn keys)"
proof -
  let ?P = "entry_matches ''serverhostname'' (last keys) object_class container_dn"
  have direct: "get_entry ldap (super_get_dn keys) [''''] = Inl NotFound"
    using assms(3) by (simp add: get_entry_def)
  show ?thesis
  proof (cases "List.find ?P ldap")
    case None
    then have "\<not> (\<exists>de \<in> set ldap. ?P de)" by (auto simp: find_None_iff)
    moreover have "host_get_dn super_get_dn container_dn ldap keys = Inr (super_get_dn keys)"
      using assms(1,2) direct None by (simp add: host_get_dn_def find_entry_by_attr_def)
    ultimately show ?thesis by simp
  next
    case (Some de)
    then obtain i where i: "i < length ldap" "?P (ldap ! i)" "de = ldap ! i"
      "\<forall>j < i. \<not> ?P (ldap ! j)" by (auto simp: find_Some_iff)
    have "host_get_dn super_get_dn container_dn ldap keys = Inr (fst de)"
      using assms(1,2) direct Some
      by (cases de) (simp add: host_get_dn_def find_entry_by_attr_def)
    moreover have "\<exists>de \<in> set ldap. ?P de" using i by auto
    ultimately show ?thesis using i by auto
  qed
qed

text \<open>
  C8 as stated fails: the key \<open>web.example.com\<close> has no entry, the host
  \<open>web.lab.example.com\<close> has the short name \<open>web\<close>, the first label of the key; the
  resolver returns neither that host nor \<open>NotFound\<close> but the identifier built from
  the key.
\<close>

theorem fallback_whole_key_counterexample:
  "host_get_dn example_dn ''cn=computers'' example_hosts [''web.example.com'']
     = Inr ''fqdn=web.example.com,cn=computers''"
  by (simp add: host_get_dn_def example_dn_def example_hosts_def get_entry_def
      find_entry_by_attr_def entry_matches_def suffix_def object_class_def)

theorem fallback_whole_key_witness:
  "host_get_dn example_dn ''cn=computers'' example_hosts [''web''] =
     Inr ''fqdn=web.lab.example.com,cn=computers''
   \<and> host_get_dn example_dn ''cn=computers'' example_hosts [''db''] =
     Inr ''fqdn=db,cn=computers''"
proof -
  have m: "entry_matches ''serverhostname'' ''web'' object_class ''cn=computers''
     (''fqdn=web.lab.example.com,cn=computers'',
       [''objectclass'' \<mapsto> object_class, ''fqdn'' \<mapsto> [''web.lab.example.com''],
        ''serverhostname'' \<mapsto> [''web''], ''l'' \<mapsto> [''Dallas'']])"
    by (simp add: entry_matches_def suffix_def object_class_def)
  have n: "\<not> entry_matches ''serverhostname'' ''db'' object_class ''cn=computers''
     (''fqdn=web.lab.example.com,cn=computers'',
       [''objectclass'' \<mapsto> object_class, ''fqdn'' \<mapsto> [''web.lab.example.com''],
        ''serverhostname'' \<mapsto> [''web''], ''l'' \<mapsto> [''Dallas'']])"
    by (simp add: entry_matches_def)
  show ?thesis
    using fallback_whole_key [of "[''web'']" example_hosts example_dn "''cn=computers''"]
      fallback_whole_key [of "[''db'']" example_hosts example_dn "''cn=computers''"] m n
    by (simp add: example_hosts_def example_dn_def suffix_def)
qed

section \<open>Properties of host\_add\<close>

text \<open>
  On a list of object classes that holds neither marker, as the list of line 97, the
  Kerberos part of the hook does what is expected of it: without a password the
  principal is \<open>host/key@realm\<close> and both markers are there, with a password the
  entry is left alone and has no marker.
\<close>

lemma add_kerberos_no_password:
  assumes "''userpassword'' \<notin> dom ea" and "ea ''objectclass'' = Some (Lst l)"
    and "''krbprincipalaux'' \<notin> set l"
  shows "\<exists>e. add_kerberos realm key ea = Inr e
           \<and> e ''krbprincipalname'' = Some (Str (''host/'' @ key @ ''@'' @ realm))
           \<and> markers_present (e ''objectclass'')"
  using assms by (simp add: add_kerberos_def krb_markers_def)

lemma add_kerberos_password:
  assumes "''userpassword'' \<in> dom ea" and "ea ''objectclass'' = Some (Lst l)"
    and "''krbprincipalaux'' \<notin> set l" and "''krbprincipal'' \<notin> set l"
  shows "add_kerberos realm key ea = Inr ea \<and> markers_absent (ea ''objectclass'')"
  using assms by (simp add: add_kerberos_def krb_markers_def)

text \<open>
  C3. The claim: an add with an enrollment password assigns no principal and leaves
  none of the Kerberos markers in the object classes. The code: the branch for a
  password (lines 211-212) removes \<open>krbprincipalaux\<close> only, where the other branch
  (lines 209-210) appends \<open>krbprincipalaux\<close> and \<open>krbprincipal\<close>. On an entry whose
  object classes hold both markers, the entry built has no principal and still has
  \<open>krbprincipal\<close>.
\<close>

theorem add_password_keeps_krbprincipal:
  "case host_add_pre_callback (\<lambda>h. True) ''EXAMPLE.COM'' ''fqdn=h.example.com,cn=computers''
          [''userpassword'' \<mapsto> Str ''Secret123'',
           ''objectclass'' \<mapsto> Lst (object_class @ [''krbprincipalaux'', ''krbprincipal''])]
          [''h.example.com''] False of
     Inl err \<Rightarrow> False
   | Inr (d, e) \<Rightarrow>
       e ''krbprincipalname'' = None
       \<and> e ''objectclass'' = Some (Lst (object_class @ [''krbprincipal'']))
       \<and> \<not> markers_absent (e ''objectclass'')"
  by (simp add: host_add_pre_callback_def add_kerberos_def rename_locality_def
      object_class_def krb_markers_def)

text \<open>
  What the hooks do to the object class \<open>krbprincipalaux\<close>, the one their tests
  look at.
\<close>

lemma mod_certificate_keeps:
  "mod_certificate b64 sn ldap dn ea = Inr (dn', ea') \<Longrightarrow> k \<noteq> ''usercertificate'' \<Longrightarrow>
   ea' k = ea k"
  by (auto simp: mod_certificate_def get_entry_def
      split: option.splits if_splits list.splits sum.splits)

lemma mod_certificate_dn:
  "mod_certificate b64 sn ldap dn ea = Inr (dn', ea') \<Longrightarrow> dn' = dn"
  by (auto simp: mod_certificate_def get_entry_def
      split: option.splits if_splits list.splits sum.splits)

lemma mod_principal_classes:
  assumes "mod_principal ldap dn ea = Inr (dn', ea')" and "map_of ldap dn = Some old"
  shows "if ''krbprincipalname'' \<in> dom ea
         then ''krbprincipalname'' \<notin> dom old \<and>
              (\<exists>ocs. old ''objectclass'' = Some ocs \<and>
                 ea' ''objectclass'' =
                   (if ''krbprincipalaux'' \<in> set ocs then ea ''objectclass''
                    else Some (Lst (ocs @ [''krbprincipalaux'']))))
         else ea' ''objectclass'' = ea ''objectclass''"
  using assms
  by (auto simp: mod_principal_def get_entry_Some split: if_splits option.splits)

lemma add_kerberos_aux:
  assumes "ea ''objectclass'' = Some (Lst l)" and "count_list l ''krbprincipalaux'' \<le> 1"
    and "''krbprincipalname'' \<notin> dom ea"
  shows "\<exists>e l'. add_kerberos realm key ea = Inr e \<and> e ''objectclass'' = Some (Lst l')
           \<and> (''krbprincipalaux'' \<in> set l') = (''krbprincipalname'' \<in> dom e)
           \<and> e ''managedby'' = ea ''managedby''"
proof (cases "''userpassword'' \<in> dom ea")
  case False
  then show ?thesis using assms(1)
    by (cases "''krbprincipalaux'' \<in> set l") (simp_all add: add_kerberos_def Let_def)
next
  case True
  have "''krbprincipalaux'' \<notin> set (remove1 ''krbprincipalaux'' l)"
  proof (cases "''krbprincipalaux'' \<in> set l")
    case False
    then show ?thesis by (simp add: remove1_idem)
  next
    case in_l: True
    then obtain xs ys where l: "l = xs @ ''krbprincipalaux'' # ys"
      and x: "''krbprincipalaux'' \<notin> set xs" by (meson split_list_first)
    have "count_list ys ''krbprincipalaux'' = 0" using assms(2) l by simp
    then have "''krbprincipalaux'' \<notin> set ys" by (simp add: count_list_0_iff)
    then show ?thesis using l x by (simp add: remove1_append)
  qed
  then show ?thesis using True assms(1,3)
    by (cases "''krbprincipalaux'' \<in> set l") (auto simp: add_kerberos_def)
qed


lemma host_add_aux:
  assumes "keys \<noteq> []" and "force \<or> validate_host_dns (last keys)"
    and "ea ''objectclass'' = Some (Lst l)" and "count_list l ''krbprincipalaux'' \<le> 1"
    and "''krbprincipalname'' \<notin> dom ea"
  shows "\<exists>e l'. host_add_pre_callback validate_host_dns realm dn ea keys force = Inr (dn, e)
           \<and> e ''objectclass'' = Some (Lst l')
           \<and> (''krbprincipalaux'' \<in> set l') = (''krbprincipalname'' \<in> dom e)"
proof -
  let ?e3 = "((rename_locality ea)(''cn'' \<mapsto> Str (last keys)))
               (''serverhostname'' \<mapsto> Str (takeWhile (\<lambda>c. c \<noteq> CHR ''.'') (last keys)))"
  have oc: "?e3 ''objectclass'' = Some (Lst l)"
    using assms(3) by (simp add: rename_locality_other)
  have np: "''krbprincipalname'' \<notin> dom ?e3"
    using assms(5) by (simp add: rename_locality_dom_other)
  from add_kerberos_aux [OF oc assms(4) np, of realm "last keys"]
  obtain e4 l' where a: "add_kerberos realm (last keys) ?e3 = Inr e4"
    and b: "e4 ''objectclass'' = Some (Lst l')"
    and c: "(''krbprincipalaux'' \<in> set l') = (''krbprincipalname'' \<in> dom e4)" by blast
  have "host_add_pre_callback validate_host_dns realm dn ea keys force =
      Inr (dn, e4(''managedby'' \<mapsto> Str dn))"
    using assms(1,2) a by (auto simp: host_add_pre_callback_def Let_def)
  then show ?thesis using b c by (intro exI [of _ "e4(''managedby'' \<mapsto> Str dn)"]) auto
qed

lemma host_mod_keeps_invariant:
  assumes old: "map_of ldap dn = Some old" and inv: "entry_invariant old"
    and noc: "''objectclass'' \<notin> dom pa"
    and val: "\<forall>v. pa ''krbprincipalname'' = Some v \<longrightarrow> attr_values v \<noteq> []"
    and ex: "host_mod_execute b64decode get_serial_number ldap dn pa = (Inr dn', ldap')"
  shows "\<exists>e'. map_of ldap' dn = Some e' \<and> entry_invariant e'"
proof -
  from ex obtain d1 ea1 where pre: "host_mod_pre_callback b64decode get_serial_number ldap dn pa =
      Inr (d1, ea1)" and upd: "update_entry ldap d1 ea1 = Inr ldap'"
    by (auto simp: host_mod_execute_def split: sum.splits prod.splits)
  from pre obtain d0 ea0 where p: "mod_principal ldap dn (rename_locality pa) = Inr (d0, ea0)"
    and c: "mod_certificate b64decode get_serial_number ldap d0 ea0 = Inr (d1, ea1)"
    by (auto simp: host_mod_pre_callback_def split: sum.splits prod.splits)
  have d0: "d0 = dn" using p by (rule mod_principal_dn)
  have d1: "d1 = dn" using c d0 mod_certificate_dn by blast
  have k1: "ea1 ''krbprincipalname'' = pa ''krbprincipalname''"
    using mod_certificate_keeps [OF c, of "''krbprincipalname''"]
      mod_principal_keeps [OF p, of "''krbprincipalname''"]
    by (simp add: rename_locality_other)
  have o1: "ea1 ''objectclass'' = ea0 ''objectclass''"
    using mod_certificate_keeps [OF c, of "''objectclass''"] by simp
  have ro: "rename_locality pa ''objectclass'' = None"
    using noc by (simp add: rename_locality_other dom_def)
  have new: "map_of ldap' dn = Some (merge_entry old ea1)"
    using upd old d1 by (auto simp: update_entry_def map_of_map_upd)
  note cls = mod_principal_classes [OF p old]
  show ?thesis
  proof (cases "''krbprincipalname'' \<in> dom pa")
    case True
    then obtain v where v: "pa ''krbprincipalname'' = Some v" by blast
    with val have nv: "attr_values v \<noteq> []" by blast
    from True have "''krbprincipalname'' \<in> dom (rename_locality pa)"
      by (simp add: rename_locality_dom_other)
    with cls obtain ocs where nold: "''krbprincipalname'' \<notin> dom old"
      and ocs: "old ''objectclass'' = Some ocs"
      and eo: "ea0 ''objectclass'' =
        (if ''krbprincipalaux'' \<in> set ocs then rename_locality pa ''objectclass''
         else Some (Lst (ocs @ [''krbprincipalaux''])))" by auto
    have "''krbprincipalaux'' \<notin> set ocs" using inv nold ocs by (simp add: entry_invariant_def)
    then have "ea1 ''objectclass'' = Some (Lst (ocs @ [''krbprincipalaux'']))"
      using eo o1 by simp
    then have "entry_invariant (merge_entry old ea1)"
      using k1 v nv by (simp add: entry_invariant_def merge_entry_def dom_def)
    then show ?thesis using new by simp
  next
    case False
    then have "''krbprincipalname'' \<notin> dom (rename_locality pa)"
      by (simp add: rename_locality_dom_other)
    with cls have "ea0 ''objectclass'' = None" using ro by simp
    then have "merge_entry old ea1 ''objectclass'' = old ''objectclass''"
      and "merge_entry old ea1 ''krbprincipalname'' = old ''krbprincipalname''"
      using o1 k1 False by (simp_all add: merge_entry_def dom_def)
    then have "entry_invariant (merge_entry old ea1)"
      using inv by (simp add: entry_invariant_def dom_def)
    then show ?thesis using new by simp
  qed
qed

text \<open>
  C4, amended. The object class \<open>krbprincipalaux\<close> is in the entry exactly when the
  principal name is. After an add whose payload brings no principal name and whose
  object classes hold \<open>krbprincipalaux\<close> at most once, the entry built has the class
  if and only if it has a principal name. A modify that succeeds, on a stored entry
  for which this holds, with a payload that brings no object classes and no empty
  principal name, leaves an entry for which it holds.
\<close>

theorem krbprincipalaux_invariant:
  "(keys \<noteq> [] \<and> (force \<or> validate_host_dns (last keys))
     \<and> ea ''objectclass'' = Some (Lst l) \<and> count_list l ''krbprincipalaux'' \<le> 1
     \<and> ''krbprincipalname'' \<notin> dom ea \<longrightarrow>
      (\<exists>e l'. host_add_pre_callback validate_host_dns realm dn ea keys force = Inr (dn, e)
           \<and> e ''objectclass'' = Some (Lst l')
           \<and> (''krbprincipalaux'' \<in> set l') = (''krbprincipalname'' \<in> dom e)))
   \<and> (map_of ldap dn = Some old \<and> entry_invariant old \<and> ''objectclass'' \<notin> dom pa
     \<and> (\<forall>v. pa ''krbprincipalname'' = Some v \<longrightarrow> attr_values v \<noteq> [])
     \<and> host_mod_execute b64decode get_serial_number ldap dn pa = (Inr dn', ldap') \<longrightarrow>
      (\<exists>e'. map_of ldap' dn = Some e' \<and> entry_invariant e'))"
proof (intro conjI impI)
  assume a: "keys \<noteq> [] \<and> (force \<or> validate_host_dns (last keys))
     \<and> ea ''objectclass'' = Some (Lst l) \<and> count_list l ''krbprincipalaux'' \<le> 1
     \<and> ''krbprincipalname'' \<notin> dom ea"
  from a have a1: "keys \<noteq> []" by (elim conjE)
  from a have a2: "force \<or> validate_host_dns (last keys)" by (elim conjE)
  from a have a3: "ea ''objectclass'' = Some (Lst l)" by (elim conjE)
  from a have a4: "count_list l ''krbprincipalaux'' \<le> 1" by (elim conjE)
  from a have a5: "''krbprincipalname'' \<notin> dom ea" by (elim conjE)
  show "\<exists>e l'. host_add_pre_callback validate_host_dns realm dn ea keys force = Inr (dn, e)
           \<and> e ''objectclass'' = Some (Lst l')
           \<and> (''krbprincipalaux'' \<in> set l') = (''krbprincipalname'' \<in> dom e)"
    using a1 a2 a3 a4 a5 by (rule host_add_aux)
next
  assume b: "map_of ldap dn = Some old \<and> entry_invariant old \<and> ''objectclass'' \<notin> dom pa
     \<and> (\<forall>v. pa ''krbprincipalname'' = Some v \<longrightarrow> attr_values v \<noteq> [])
     \<and> host_mod_execute b64decode get_serial_number ldap dn pa = (Inr dn', ldap')"
  from b have b1: "map_of ldap dn = Some old" by (elim conjE)
  from b have b2: "entry_invariant old" by (elim conjE)
  from b have b3: "''objectclass'' \<notin> dom pa" by (elim conjE)
  from b have b4: "\<forall>v. pa ''krbprincipalname'' = Some v \<longrightarrow> attr_values v \<noteq> []"
    by (elim conjE)
  from b have b5: "host_mod_execute b64decode get_serial_number ldap dn pa = (Inr dn', ldap')"
    by (elim conjE)
  show "\<exists>e'. map_of ldap' dn = Some e' \<and> entry_invariant e'"
    using b1 b2 b3 b4 b5 by (rule host_mod_keeps_invariant)
qed

text \<open>
  C4 as stated fails: a modify sets the principal name of a host stored without one;
  afterwards the entry has the principal name and \<open>krbprincipalaux\<close>, but not
  \<open>krbprincipal\<close>, the second of the two markers of the add hook.
\<close>

theorem markers_incomplete_after_modify:
  "case host_mod_execute (\<lambda>v. None) (\<lambda>c. None)
          [(''fqdn=h.example.com,cn=computers'',
            [''objectclass'' \<mapsto> object_class, ''userpassword'' \<mapsto> [''Secret123'']])]
          ''fqdn=h.example.com,cn=computers''
          [''krbprincipalname'' \<mapsto> Str ''host/h.example.com@EXAMPLE.COM''] of
     (r, ldap') \<Rightarrow>
       r = Inr ''fqdn=h.example.com,cn=computers''
       \<and> (case map_of ldap' ''fqdn=h.example.com,cn=computers'' of
            None \<Rightarrow> False
          | Some e \<Rightarrow>
              e ''krbprincipalname'' = Some [''host/h.example.com@EXAMPLE.COM'']
              \<and> e ''objectclass'' = Some (object_class @ [''krbprincipalaux''])
              \<and> \<not> markers_present (Some (Lst (object_class @ [''krbprincipalaux'']))))"
  by (simp add: host_mod_execute_def host_mod_pre_callback_def mod_principal_def
      mod_certificate_def rename_locality_def get_entry_def update_entry_def merge_entry_def
      object_class_def krb_markers_def)


theorem krbprincipalaux_invariant_witness:
  "(\<exists>e l'. host_add_pre_callback (\<lambda>h. True) ''EXAMPLE.COM'' ''fqdn=h.example.com,cn=computers''
              [''objectclass'' \<mapsto> Lst object_class] [''h.example.com''] False =
            Inr (''fqdn=h.example.com,cn=computers'', e)
          \<and> e ''objectclass'' = Some (Lst l')
          \<and> (''krbprincipalaux'' \<in> set l') = (''krbprincipalname'' \<in> dom e))
   \<and> (\<exists>e'. map_of (snd (host_mod_execute (\<lambda>v. None) (\<lambda>c. None)
                 [(''fqdn=h.example.com,cn=computers'', [''objectclass'' \<mapsto> object_class])]
                 ''fqdn=h.example.com,cn=computers''
                 [''krbprincipalname'' \<mapsto> Str ''host/h.example.com@EXAMPLE.COM'']))
               ''fqdn=h.example.com,cn=computers'' = Some e'
          \<and> entry_invariant e')"
proof -
  let ?dn = "''fqdn=h.example.com,cn=computers''"
  let ?ldap = "[(?dn, [''objectclass'' \<mapsto> object_class])]"
  let ?pa = "[''krbprincipalname'' \<mapsto> Str ''host/h.example.com@EXAMPLE.COM'']"
  let ?ex = "host_mod_execute (\<lambda>v. None) (\<lambda>c. None) ?ldap ?dn ?pa"
  note t = krbprincipalaux_invariant [where keys = "[''h.example.com'']" and force = False
      and validate_host_dns = "\<lambda>h. True" and ea = "[''objectclass'' \<mapsto> Lst object_class]"
      and l = object_class and realm = "''EXAMPLE.COM''" and dn = ?dn
      and ldap = ?ldap and old = "[''objectclass'' \<mapsto> object_class]" and pa = ?pa
      and ?b64decode = "\<lambda>v. None" and get_serial_number = "\<lambda>c. None"
      and dn' = ?dn and ldap' = "snd ?ex"]
  have h1: "[''h.example.com''] \<noteq> [] \<and> (False \<or> True)
     \<and> [''objectclass'' \<mapsto> Lst object_class] ''objectclass'' = Some (Lst object_class)
     \<and> count_list object_class ''krbprincipalaux'' \<le> 1
     \<and> ''krbprincipalname'' \<notin> dom [''objectclass'' \<mapsto> Lst object_class]"
    by (simp add: object_class_def)
  have fst_ex: "fst ?ex = Inr ?dn"
    by (simp add: host_mod_execute_def host_mod_pre_callback_def mod_principal_def
        mod_certificate_def rename_locality_def get_entry_def update_entry_def)
  have h2: "map_of ?ldap ?dn = Some [''objectclass'' \<mapsto> object_class]
     \<and> entry_invariant [''objectclass'' \<mapsto> object_class] \<and> ''objectclass'' \<notin> dom ?pa
     \<and> (\<forall>v. ?pa ''krbprincipalname'' = Some v \<longrightarrow> attr_values v \<noteq> [])
     \<and> ?ex = (Inr ?dn, snd ?ex)"
    using fst_ex by (simp add: entry_invariant_def object_class_def prod_eq_iff)
  from t h1 h2 show ?thesis by blast
qed

section \<open>Properties of host\_find\<close>

lemma sublist_tl: "\<not> sublist xs (y # ys) \<Longrightarrow> \<not> sublist xs ys"
  by (meson sublist_Cons_right)

lemma py_replace_skip:
  "\<not> prefix (a # as) (c # cs) \<Longrightarrow>
   py_replace (a # as) new (c # cs) = c # py_replace (a # as) new cs"
  by auto

lemma py_replace_none:
  "\<not> sublist (a # as) s \<Longrightarrow> py_replace (a # as) new s = s"
proof (induction s)
  case Nil
  then show ?case by simp
next
  case (Cons c cs)
  have "\<not> prefix (a # as) (c # cs)" using Cons.prems by (meson prefix_imp_sublist)
  then have "py_replace (a # as) new (c # cs) = c # py_replace (a # as) new cs"
    by (rule py_replace_skip)
  moreover have "\<not> sublist (a # as) cs" using Cons.prems by (rule sublist_tl)
  then have "py_replace (a # as) new cs = cs" by (rule Cons.IH)
  ultimately show ?case by (simp only:)
qed

lemma py_replace_first:
  assumes "\<not> sublist (a # as) (p @ butlast (a # as))"
  shows "py_replace (a # as) new (p @ (a # as) @ b) = p @ new @ py_replace (a # as) new b"
  using assms
proof (induction p)
  case Nil
  then show ?case by simp
next
  case (Cons x p)
  let ?old = "a # as"
  have np: "\<not> prefix ?old (x # p @ ?old @ b)"
  proof
    assume pre: "prefix ?old (x # p @ ?old @ b)"
    have "prefix ((x # p) @ butlast ?old) (x # p @ ?old @ b)"
      by (metis append_Cons append_butlast_last_id list.distinct(1) prefix_def append.assoc)
    moreover have "length ?old \<le> length ((x # p) @ butlast ?old)" by simp
    ultimately have "prefix ?old ((x # p) @ butlast ?old)"
      using pre by (metis append_Cons prefix_length_prefix)
    then show False using Cons.prems by (meson prefix_imp_sublist)
  qed
  have "\<not> sublist ?old (p @ butlast ?old)"
    using Cons.prems by (metis append_Cons sublist_tl)
  then have "py_replace ?old new (p @ ?old @ b) = p @ new @ py_replace ?old new b"
    by (rule Cons.IH)
  moreover have "py_replace ?old new (x # p @ ?old @ b) = x # py_replace ?old new (p @ ?old @ b)"
    using np by (rule py_replace_skip)
  ultimately show ?case by (simp only: append_Cons)
qed

text \<open>
  The filter text cut at the occurrences of \<open>locality\<close>: every text is a list of
  pieces without \<open>locality\<close> joined by it, and the hook puts \<open>l\<close> at every joint.
\<close>

lemma locality_no_border:
  assumes "\<not> sublist ''locality'' p"
  shows "\<not> sublist ''locality'' (p @ ''localit'')"
proof
  assume "sublist ''locality'' (p @ ''localit'')"
  then consider "sublist ''locality'' p" | "sublist ''locality'' ''localit''"
    | xs1 xs2 where "''locality'' = xs1 @ xs2" "suffix xs1 p" "prefix xs2 ''localit''"
    by (auto simp: sublist_append)
  then show False
  proof cases
    case 1
    then show ?thesis using assms by simp
  next
    case 2
    then show ?thesis by (simp add: sublist_Cons_right)
  next
    case 3
    from 3(1) have "xs2 = [] \<or> xs2 = ''y'' \<or> xs2 = ''ty'' \<or> xs2 = ''ity'' \<or> xs2 = ''lity''
      \<or> xs2 = ''ality'' \<or> xs2 = ''cality'' \<or> xs2 = ''ocality'' \<or> xs2 = ''locality''"
      by (auto simp: Cons_eq_append_conv)
    then show ?thesis
    proof (elim disjE)
      assume "xs2 = []"
      with 3(1,2) have "suffix ''locality'' p" by simp
      then have "sublist ''locality'' p" by (rule suffix_imp_sublist)
      then show False using assms by simp
    qed (use 3(3) in simp_all)
  qed
qed

lemma join_with_append:
  "xs \<noteq> [] \<Longrightarrow> ys \<noteq> [] \<Longrightarrow>
   join_with sep (xs @ ys) = join_with sep xs @ sep @ join_with sep ys"
proof (induction sep xs rule: join_with.induct)
  case (1 sep)
  then show ?case by simp
next
  case (2 sep p)
  then show ?case by (cases ys) simp_all
next
  case (3 sep p q ps)
  then show ?case by simp
qed

lemma join_with_exists:
  assumes "old \<noteq> []"
  shows "\<exists>ps. ps \<noteq> [] \<and> (\<forall>p \<in> set ps. \<not> sublist old p) \<and> s = join_with old ps"
proof (induction "length s" arbitrary: s rule: less_induct)
  case less
  show ?case
  proof (cases "sublist old s")
    case False
    then show ?thesis by (intro exI [of _ "[s]"]) simp
  next
    case True
    then obtain a b where s: "s = a @ old @ b" by (auto simp: sublist_def)
    have "length a < length s" "length b < length s" using s assms by simp_all
    from less [OF this(1)] less [OF this(2)]
    obtain pa pb where pa: "pa \<noteq> []" "\<forall>p \<in> set pa. \<not> sublist old p" "a = join_with old pa"
      and pb: "pb \<noteq> []" "\<forall>p \<in> set pb. \<not> sublist old p" "b = join_with old pb" by blast
    have "s = join_with old (pa @ pb)" using s pa pb by (simp add: join_with_append)
    then show ?thesis using pa pb by (intro exI [of _ "pa @ pb"]) auto
  qed
qed

lemma replace_locality_all:
  assumes "ps \<noteq> []" and "\<forall>p \<in> set ps. \<not> sublist ''locality'' p"
  shows "py_replace ''locality'' ''l'' (join_with ''locality'' ps) = join_with ''l'' ps"
  using assms
proof (induction ps rule: induct_list012)
  case 1
  then show ?case by simp
next
  case (2 p)
  then show ?case using py_replace_none [of "CHR ''l''" "''ocality''" p "''l''"] by simp
next
  case (3 p q ps)
  have "\<not> sublist ''locality'' (p @ ''localit'')"
    using 3(4) by (intro locality_no_border) simp
  then have "py_replace ''locality'' ''l'' (p @ ''locality'' @ join_with ''locality'' (q # ps)) =
      p @ ''l'' @ py_replace ''locality'' ''l'' (join_with ''locality'' (q # ps))"
    using py_replace_first [of "CHR ''l''" "''ocality''" p "''l''"
        "join_with ''locality'' (q # ps)"] by simp
  moreover have "py_replace ''locality'' ''l'' (join_with ''locality'' (q # ps)) =
      join_with ''l'' (q # ps)" using 3 by simp
  ultimately show ?case by simp
qed


lemma publish_requested:
  "publish (e |` set (if ''locality'' \<in> set attrs_list
                      then remove1 ''locality'' attrs_list @ [''l''] else attrs_list)) =
   publish (e |` set (map to_backend_name attrs_list))"
proof (cases "''locality'' \<in> set attrs_list")
  case False
  then have "map to_backend_name attrs_list = attrs_list"
    by (intro map_idI) (auto simp: to_backend_name_def)
  then show ?thesis using False by simp
next
  case True
  have "publish (e |` set (remove1 ''locality'' attrs_list @ [''l''])) name =
      publish (e |` set (map to_backend_name attrs_list)) name" for name
  proof (cases "name = ''locality'' \<or> name = ''l''")
    case True
    then show ?thesis
      using \<open>''locality'' \<in> set attrs_list\<close>
      by (auto simp: publish_def to_public_name_def to_backend_name_def restrict_map_def)
  next
    case False
    then have "(name \<in> set (remove1 ''locality'' attrs_list)) = (name \<in> set attrs_list)"
      by simp
    moreover have "(name \<in> to_backend_name ` set attrs_list) = (name \<in> set attrs_list)"
      using False by (auto simp: to_backend_name_def split: if_splits)
    ultimately show ?thesis using False
      by (simp add: publish_def to_public_name_def restrict_map_def)
  qed
  then show ?thesis using True by auto
qed

text \<open>
  C9. A find whose filter text is any text, cut into pieces at its occurrences of
  \<open>locality\<close>, and whose attribute list is any list: the backend is searched with the
  filter text that has \<open>l\<close> at every occurrence and the result is that of a search
  for the attributes with \<open>l\<close> in place of \<open>locality\<close>, so the search is performed
  as if the backend name had been used in both; and no entry returned has the field
  under \<open>l\<close>: when \<open>locality\<close> was asked for, the entry has under \<open>locality\<close>
  what a stored entry has under \<open>l\<close>. The rewriting of the query is that of the hook;
  the search and the mapping of the result are as sections 4.1, 4.3 and 4.4 give them.
\<close>

theorem find_alias_rewritten:
  "(\<exists>ps. ps \<noteq> [] \<and> (\<forall>p \<in> set ps. \<not> sublist ''locality'' p)
        \<and> filter_text = join_with ''locality'' ps)
   \<and> (\<forall>ps. ps \<noteq> [] \<and> (\<forall>p \<in> set ps. \<not> sublist ''locality'' p)
        \<and> filter_text = join_with ''locality'' ps \<longrightarrow>
          fst (host_find_pre_callback filter_text attrs_list) = join_with ''l'' ps
        \<and> host_find_execute (search_entries matches ldap) filter_text attrs_list =
            map publish (search_entries matches ldap (join_with ''l'' ps)
                           (map to_backend_name attrs_list)))
   \<and> (\<forall>r \<in> set (host_find_execute (search_entries matches ldap) filter_text attrs_list).
        r ''l'' = None
        \<and> (''locality'' \<in> set attrs_list \<longrightarrow> (\<exists>d e. (d, e) \<in> set ldap \<and> r ''locality'' = e ''l'')))"
proof (intro conjI)
  show "\<exists>ps. ps \<noteq> [] \<and> (\<forall>p \<in> set ps. \<not> sublist ''locality'' p)
        \<and> filter_text = join_with ''locality'' ps"
    by (rule join_with_exists) simp
next
  show "\<forall>ps. ps \<noteq> [] \<and> (\<forall>p \<in> set ps. \<not> sublist ''locality'' p)
        \<and> filter_text = join_with ''locality'' ps \<longrightarrow>
          fst (host_find_pre_callback filter_text attrs_list) = join_with ''l'' ps
        \<and> host_find_execute (search_entries matches ldap) filter_text attrs_list =
            map publish (search_entries matches ldap (join_with ''l'' ps)
                           (map to_backend_name attrs_list))"
  proof (intro allI impI)
    fix ps
    assume a: "ps \<noteq> [] \<and> (\<forall>p \<in> set ps. \<not> sublist ''locality'' p)
        \<and> filter_text = join_with ''locality'' ps"
    then have r: "py_replace ''locality'' ''l'' filter_text = join_with ''l'' ps"
      using replace_locality_all [of ps] by blast
    have "host_find_execute (search_entries matches ldap) filter_text attrs_list =
        map (\<lambda>(d, e). publish (e |` set (if ''locality'' \<in> set attrs_list
                      then remove1 ''locality'' attrs_list @ [''l''] else attrs_list)))
          (filter (\<lambda>(d, e). matches (join_with ''l'' ps) e) ldap)"
      by (simp add: host_find_execute_def host_find_pre_callback_def search_entries_def r
          case_prod_beta comp_def)
    also have "\<dots> = map (\<lambda>(d, e). publish (e |` set (map to_backend_name attrs_list)))
          (filter (\<lambda>(d, e). matches (join_with ''l'' ps) e) ldap)"
      by (simp only: publish_requested)
    also have "\<dots> = map publish (search_entries matches ldap (join_with ''l'' ps)
                           (map to_backend_name attrs_list))"
      by (simp add: search_entries_def case_prod_beta comp_def)
    finally show "fst (host_find_pre_callback filter_text attrs_list) = join_with ''l'' ps
        \<and> host_find_execute (search_entries matches ldap) filter_text attrs_list =
            map publish (search_entries matches ldap (join_with ''l'' ps)
                           (map to_backend_name attrs_list))"
      using r by (simp add: host_find_pre_callback_def)
  qed
next
  show "\<forall>r \<in> set (host_find_execute (search_entries matches ldap) filter_text attrs_list).
        r ''l'' = None
        \<and> (''locality'' \<in> set attrs_list \<longrightarrow> (\<exists>d e. (d, e) \<in> set ldap \<and> r ''locality'' = e ''l''))"
  proof
    fix r
    assume "r \<in> set (host_find_execute (search_entries matches ldap) filter_text attrs_list)"
    then obtain d e where de: "(d, e) \<in> set ldap"
      and r: "r = publish (e |` set (if ''locality'' \<in> set attrs_list
                      then remove1 ''locality'' attrs_list @ [''l''] else attrs_list))"
      by (auto simp: host_find_execute_def host_find_pre_callback_def search_entries_def)
    have "r ''l'' = None" by (simp add: r publish_def to_public_name_def)
    moreover have "r ''locality'' = e ''l''" if "''locality'' \<in> set attrs_list"
      using that by (simp add: r publish_def to_public_name_def)
    ultimately show "r ''l'' = None
        \<and> (''locality'' \<in> set attrs_list \<longrightarrow> (\<exists>d e. (d, e) \<in> set ldap \<and> r ''locality'' = e ''l''))"
      using de by blast
  qed
qed

theorem find_alias_rewritten_witness:
  "fst (host_find_pre_callback ''(&(locality=Dallas)(locality=*))'' [''fqdn'', ''locality''])
     = ''(&(l=Dallas)(l=*))''
   \<and> host_find_execute (search_entries match_all example_hosts)
       ''(&(locality=Dallas)(locality=*))'' [''fqdn'', ''locality'']
     = map publish (search_entries match_all example_hosts ''(&(l=Dallas)(l=*))'' [''fqdn'', ''l''])
   \<and> map (\<lambda>r. (r ''fqdn'', r ''locality'', r ''l''))
       (host_find_execute (search_entries match_all example_hosts)
          ''(&(locality=Dallas)(locality=*))'' [''fqdn'', ''locality''])
     = [(Some [''web.lab.example.com''], Some [''Dallas''], None)]"
proof -
  let ?ps = "[''(&('', ''=Dallas)('', ''=*))'']"
  have c: "?ps \<noteq> [] \<and> (\<forall>p \<in> set ?ps. \<not> sublist ''locality'' p)
        \<and> ''(&(locality=Dallas)(locality=*))'' = join_with ''locality'' ?ps"
    by (simp add: sublist_Cons_right)
  note t = find_alias_rewritten [of "''(&(locality=Dallas)(locality=*))''"
      "[''fqdn'', ''locality'']" match_all example_hosts]
  from t have "\<forall>ps. ps \<noteq> [] \<and> (\<forall>p \<in> set ps. \<not> sublist ''locality'' p)
        \<and> ''(&(locality=Dallas)(locality=*))'' = join_with ''locality'' ps \<longrightarrow>
          fst (host_find_pre_callback ''(&(locality=Dallas)(locality=*))''
                 [''fqdn'', ''locality'']) = join_with ''l'' ps
        \<and> host_find_execute (search_entries match_all example_hosts)
              ''(&(locality=Dallas)(locality=*))'' [''fqdn'', ''locality''] =
            map publish (search_entries match_all example_hosts (join_with ''l'' ps)
                           (map to_backend_name [''fqdn'', ''locality'']))"
    by (elim conjE)
  from this [THEN spec, of ?ps, THEN mp, OF c]
  have 1: "fst (host_find_pre_callback ''(&(locality=Dallas)(locality=*))''
                 [''fqdn'', ''locality'']) = ''(&(l=Dallas)(l=*))''"
    and 2: "host_find_execute (search_entries match_all example_hosts)
       ''(&(locality=Dallas)(locality=*))'' [''fqdn'', ''locality'']
     = map publish (search_entries match_all example_hosts ''(&(l=Dallas)(l=*))'' [''fqdn'', ''l''])"
    by (simp_all add: to_backend_name_def)
  have 3: "map (\<lambda>r. (r ''fqdn'', r ''locality'', r ''l''))
       (map publish (search_entries match_all example_hosts ''(&(l=Dallas)(l=*))'' [''fqdn'', ''l'']))
     = [(Some [''web.lab.example.com''], Some [''Dallas''], None)]"
    by (simp add: search_entries_def match_all_def example_hosts_def publish_def
        to_public_name_def restrict_map_def)
  show ?thesis using 1 2 3 by (simp only:)
qed

section \<open>Properties of host\_del\<close>

subsection \<open>The loop over a sequence of search responses\<close>

lemma del_ok_state:
  "del_services del_ok sp f ss w = (fst (del_services del_ok sp f ss (0::nat)), w)"
proof (induction ss)
  case Nil
  then show ?case by simp
next
  case (Cons e es)
  then show ?case
    by (auto simp: del_ok_def split: option.splits list.splits prod.splits)
qed

lemma loop_step_stop:
  assumes "\<not> continues sp f (responses k)"
  shows "service_loop (find_response responses) del_ok sp f k =
           Some (page_outcome sp f (responses k), Suc k)"
proof (cases "responses k")
  case (Inl err)
  then show ?thesis
    by (subst service_loop.simps) (simp add: find_response_def page_outcome_def)
next
  case (Inr r)
  obtain t ss where r: "r = (t, ss)" by (cases r)
  obtain o1 where d: "del_services del_ok sp f ss (Suc k) = (o1, Suc k)"
    and o1: "o1 = fst (del_services del_ok sp f ss (0::nat))"
    using del_ok_state [of sp f ss "Suc k"] by simp
  show ?thesis
    using assms Inr r d o1
    by (subst service_loop.simps)
       (auto simp: find_response_def page_outcome_def continues_def split: option.splits)
qed

lemma loop_step_continue:
  assumes "continues sp f (responses k)"
  shows "service_loop (find_response responses) del_ok sp f k =
           service_loop (find_response responses) del_ok sp f (Suc k)"
proof -
  from assms obtain ss where r: "responses k = Inr (True, ss)"
    and ok: "fst (del_services del_ok sp f ss (0::nat)) = None"
    by (auto simp: continues_def split: sum.splits prod.splits)
  have d: "del_services del_ok sp f ss (Suc k) = (None, Suc k)"
    using del_ok_state [of sp f ss "Suc k"] ok by simp
  show ?thesis
    by (subst service_loop.simps) (simp add: find_response_def r d)
qed

lemma loop_terminates:
  assumes "\<forall>i<n. continues sp f (responses (k + i))"
    and "\<not> continues sp f (responses (k + n))"
  shows "service_loop (find_response responses) del_ok sp f k =
           Some (page_outcome sp f (responses (k + n)), Suc (k + n))"
  using assms
proof (induction n arbitrary: k)
  case 0
  then show ?case using loop_step_stop [of sp f responses k] by simp
next
  case (Suc n)
  have c: "continues sp f (responses k)" using Suc.prems(1) [rule_format, of 0] by simp
  have "\<forall>i<n. continues sp f (responses (Suc k + i))"
    using Suc.prems(1) by (metis Suc_less_eq add_Suc_shift)
  moreover have "\<not> continues sp f (responses (Suc k + n))" using Suc.prems(2) by simp
  ultimately have "service_loop (find_response responses) del_ok sp f (Suc k) =
           Some (page_outcome sp f (responses (Suc k + n)), Suc (Suc k + n))"
    by (rule Suc.IH)
  then show ?case using loop_step_continue [of sp f responses k] c by simp
qed

lemma loop_diverges_aux:
  assumes "service_loop sf sd sp f k = Some y"
  shows "sf = find_response responses \<longrightarrow> sd = del_ok \<longrightarrow>
           \<not> (\<forall>i. continues sp f (responses (k + i)))"
proof (rule service_loop.raw_induct [where P = "\<lambda>sf sd sp f k y.
    sf = find_response responses \<longrightarrow> sd = del_ok \<longrightarrow>
      \<not> (\<forall>i. continues sp f (responses (k + i)))", OF _ assms])
  fix loop sf sd sp f w y
  assume IH: "\<And>sf sd sp f w y. loop sf sd sp f w = Some y \<Longrightarrow>
      sf = find_response responses \<longrightarrow> sd = del_ok \<longrightarrow>
        \<not> (\<forall>i. continues sp f (responses (w + i)))"
    and body: "(case sf w f of
      (Inl err, w') \<Rightarrow> Some (if err = NotFound then None else Some err, w')
      | (Inr (truncated, services), w') \<Rightarrow>
          (case del_services sd sp f services w' of
             (None, w'') \<Rightarrow> if truncated then loop sf sd sp f w'' else Some (None, w'')
           | (Some err, w'') \<Rightarrow> Some (Some err, w''))) = Some y"
  show "sf = find_response responses \<longrightarrow> sd = del_ok \<longrightarrow>
      \<not> (\<forall>i. continues sp f (responses (w + i)))"
  proof (intro impI notI)
    assume sf: "sf = find_response responses" and sd: "sd = del_ok"
      and all: "\<forall>i. continues sp f (responses (w + i))"
    from all have c: "continues sp f (responses w)" by (metis add.right_neutral)
    then obtain ss where r: "responses w = Inr (True, ss)"
      and ok: "fst (del_services del_ok sp f ss (0::nat)) = None"
      by (auto simp: continues_def split: sum.splits prod.splits)
    have d: "del_services del_ok sp f ss (Suc w) = (None, Suc w)"
      using del_ok_state [of sp f ss "Suc w"] ok by simp
    have "loop sf sd sp f (Suc w) = Some y"
      using body by (simp add: sf sd find_response_def r d)
    then have "\<not> (\<forall>i. continues sp f (responses (Suc w + i)))"
      using IH sf sd by blast
    moreover have "\<forall>i. continues sp f (responses (Suc w + i))"
      using all by (metis add_Suc_shift)
    ultimately show False by blast
  qed
qed

lemma loop_diverges:
  assumes "\<forall>i. continues sp f (responses (k + i))"
  shows "service_loop (find_response responses) del_ok sp f k = None"
proof (cases "service_loop (find_response responses) del_ok sp f k")
  case None
  then show ?thesis .
next
  case (Some y)
  from loop_diverges_aux [OF Some, of responses] assms show ?thesis by blast
qed

text \<open>
  C6, amended. Over a sequence of search responses the loop stops at the first
  response that does not let it continue: a search that raises (\<open>NotFound\<close> ends
  the loop, another error leaves the hook), a page whose truncated flag is false, or a
  page during which a step raises. Then it has made one search per response up to that
  one. When every response is a truncated page that goes through, the loop does not
  terminate.
\<close>

theorem loop_stops_at_first_final_response:
  "if \<exists>n. \<not> continues sp fqdn (responses (k + n))
   then service_loop (find_response responses) del_ok sp fqdn k =
          Some (page_outcome sp fqdn
                  (responses (k + (LEAST n. \<not> continues sp fqdn (responses (k + n))))),
                Suc (k + (LEAST n. \<not> continues sp fqdn (responses (k + n)))))
   else service_loop (find_response responses) del_ok sp fqdn k = None"
proof (cases "\<exists>n. \<not> continues sp fqdn (responses (k + n))")
  case True
  let ?m = "LEAST n. \<not> continues sp fqdn (responses (k + n))"
  have "\<not> continues sp fqdn (responses (k + ?m))" using True by (rule LeastI_ex)
  moreover have "\<forall>i<?m. continues sp fqdn (responses (k + i))"
    using not_less_Least by blast
  ultimately show ?thesis using True loop_terminates by simp
next
  case False
  then show ?thesis using loop_diverges by simp
qed

text \<open>
  C6 as stated fails: on the sequence whose every response is an empty truncated page
  the loop never ends.
\<close>

theorem loop_never_ends_counterexample:
  "service_loop (find_response (\<lambda>n. Inr (True, []))) del_ok split_example ''h.example.com'' 0
     = None"
  using loop_diverges [of split_example "''h.example.com''" "\<lambda>n. Inr (True, [])" 0]
  by (simp add: continues_def)

subsection \<open>The cascade on a directory of services\<close>

lemma owned_by_parses: "owned_by sp f p \<Longrightarrow> \<exists>s h r. sp p = Some (s, h, r) \<and> py_lower h = f"
  by (auto simp: owned_by_def split: option.splits)

lemma service_entry_princ: "service_entry p ''krbprincipalname'' = Some [p]"
  by (simp add: service_entry_def)

lemma service_del_entry_in:
  "p \<in> set (service_principals w) \<Longrightarrow>
   service_del_entry w p = (None, w\<lparr>service_principals := removeAll p (service_principals w)\<rparr>)"
  by (simp add: service_del_entry_def)

lemma service_del_entry_out:
  "p \<notin> set (service_principals w) \<Longrightarrow> service_del_entry w p = (Some NotFound, w)"
  by (simp add: service_del_entry_def)

text \<open>One page: only services of the host are removed, and all of them when no step raises.\<close>

lemma del_services_page:
  assumes "del_services service_del_entry sp f (map service_entry ps) w = (out, w')"
  shows "host_entries w' = host_entries w
       \<and> set (service_principals w') \<subseteq> set (service_principals w)
       \<and> filter (\<lambda>p. \<not> owned_by sp f p) (service_principals w') =
           filter (\<lambda>p. \<not> owned_by sp f p) (service_principals w)
       \<and> (out = None \<longrightarrow>
            (\<forall>p \<in> set (service_principals w'). owned_by sp f p \<longrightarrow> p \<notin> set ps))"
  using assms
proof (induction ps arbitrary: w)
  case Nil
  then show ?case by simp
next
  case (Cons p ps)
  show ?case
  proof (cases "owned_by sp f p")
    case False
    show ?thesis
    proof (cases "sp p")
      case None
      with Cons.prems show ?thesis by (auto simp: service_entry_princ)
    next
      case (Some t)
      with False Cons.prems
      have "del_services service_del_entry sp f (map service_entry ps) w = (out, w')"
        by (auto simp: service_entry_princ owned_by_def split: prod.splits)
      from Cons.IH [OF this] False show ?thesis by auto
    qed
  next
    case True
    then obtain s h r where sp: "sp p = Some (s, h, r)" "py_lower h = f"
      using owned_by_parses by blast
    show ?thesis
    proof (cases "p \<in> set (service_principals w)")
      case False
      with sp Cons.prems show ?thesis
        by (auto simp: service_entry_princ service_del_entry_out)
    next
      case in_w: True
      let ?w1 = "w\<lparr>service_principals := removeAll p (service_principals w)\<rparr>"
      from sp in_w Cons.prems
      have "del_services service_del_entry sp f (map service_entry ps) ?w1 = (out, w')"
        by (simp add: service_entry_princ service_del_entry_in)
      from Cons.IH [OF this] True show ?thesis
        by (auto simp: removeAll_filter_not_eq filter_id_conv intro!: filter_cong)
    qed
  qed
qed


lemma find_paged:
  "service_find_paged n sc w f =
     (Inr (n < length (filter (sc f) (service_principals w)),
           map service_entry (take n (filter (sc f) (service_principals w)))), w)"
  by (simp add: service_find_paged_def Let_def)

text \<open>The loop, when it ends: partial correctness.\<close>

lemma loop_partial:
  assumes "service_loop sf sd sp f w = Some y"
  shows "sf = service_find_paged n sc \<longrightarrow> sd = service_del_entry \<longrightarrow>
         host_entries (snd y) = host_entries w
       \<and> set (service_principals (snd y)) \<subseteq> set (service_principals w)
       \<and> filter (\<lambda>p. \<not> owned_by sp f p) (service_principals (snd y)) =
           filter (\<lambda>p. \<not> owned_by sp f p) (service_principals w)
       \<and> (fst y = None \<longrightarrow>
            (\<forall>p \<in> set (service_principals (snd y)). owned_by sp f p \<longrightarrow> \<not> sc f p))"
proof (rule service_loop.raw_induct [where P = "\<lambda>sf sd sp f w y.
    sf = service_find_paged n sc \<longrightarrow> sd = service_del_entry \<longrightarrow>
         host_entries (snd y) = host_entries w
       \<and> set (service_principals (snd y)) \<subseteq> set (service_principals w)
       \<and> filter (\<lambda>p. \<not> owned_by sp f p) (service_principals (snd y)) =
           filter (\<lambda>p. \<not> owned_by sp f p) (service_principals w)
       \<and> (fst y = None \<longrightarrow>
            (\<forall>p \<in> set (service_principals (snd y)). owned_by sp f p \<longrightarrow> \<not> sc f p))",
    OF _ assms])
  fix loop sf sd sp f w y
  assume IH: "\<And>sf sd sp f w y. loop sf sd sp f w = Some y \<Longrightarrow>
      sf = service_find_paged n sc \<longrightarrow> sd = service_del_entry \<longrightarrow>
         host_entries (snd y) = host_entries w
       \<and> set (service_principals (snd y)) \<subseteq> set (service_principals w)
       \<and> filter (\<lambda>p. \<not> owned_by sp f p) (service_principals (snd y)) =
           filter (\<lambda>p. \<not> owned_by sp f p) (service_principals w)
       \<and> (fst y = None \<longrightarrow>
            (\<forall>p \<in> set (service_principals (snd y)). owned_by sp f p \<longrightarrow> \<not> sc f p))"
    and body: "(case sf w f of
      (Inl err, w') \<Rightarrow> Some (if err = NotFound then None else Some err, w')
      | (Inr (truncated, services), w') \<Rightarrow>
          (case del_services sd sp f services w' of
             (None, w'') \<Rightarrow> if truncated then loop sf sd sp f w'' else Some (None, w'')
           | (Some err, w'') \<Rightarrow> Some (Some err, w''))) = Some y"
  show "sf = service_find_paged n sc \<longrightarrow> sd = service_del_entry \<longrightarrow>
         host_entries (snd y) = host_entries w
       \<and> set (service_principals (snd y)) \<subseteq> set (service_principals w)
       \<and> filter (\<lambda>p. \<not> owned_by sp f p) (service_principals (snd y)) =
           filter (\<lambda>p. \<not> owned_by sp f p) (service_principals w)
       \<and> (fst y = None \<longrightarrow>
            (\<forall>p \<in> set (service_principals (snd y)). owned_by sp f p \<longrightarrow> \<not> sc f p))"
  proof (intro impI)
    assume sf: "sf = service_find_paged n sc" and sd: "sd = service_del_entry"
    let ?found = "filter (sc f) (service_principals w)"
    obtain o1 w1 where d: "del_services service_del_entry sp f
        (map service_entry (take n ?found)) w = (o1, w1)" by fastforce
    note page = del_services_page [OF d]
    show "host_entries (snd y) = host_entries w
       \<and> set (service_principals (snd y)) \<subseteq> set (service_principals w)
       \<and> filter (\<lambda>p. \<not> owned_by sp f p) (service_principals (snd y)) =
           filter (\<lambda>p. \<not> owned_by sp f p) (service_principals w)
       \<and> (fst y = None \<longrightarrow>
            (\<forall>p \<in> set (service_principals (snd y)). owned_by sp f p \<longrightarrow> \<not> sc f p))"
    proof (cases o1)
      case (Some err)
      then have "y = (Some err, w1)" using body by (simp add: sf sd find_paged d)
      then show ?thesis using page by simp
    next
      case None
      show ?thesis
      proof (cases "n < length ?found")
        case True
        then have "loop sf sd sp f w1 = Some y"
          using body None by (simp add: sf sd find_paged d)
        from IH [OF this] sf sd page show ?thesis by auto
      next
        case False
        have tk: "take n ?found = ?found" using False by simp
        have y: "y = (None, w1)"
          using body None False d [unfolded tk] by (simp add: sf sd find_paged)
        from tk have "\<forall>p \<in> set (service_principals w1). owned_by sp f p \<longrightarrow> p \<notin> set ?found"
          using page None by simp
        then have "\<forall>p \<in> set (service_principals w1). owned_by sp f p \<longrightarrow> \<not> sc f p"
          using page by auto
        then show ?thesis using y page by simp
      qed
    qed
  qed
qed

lemma lower_example:
  "py_lower ''h.example.com'' = ''h.example.com''"
  "py_lower ''other.example.com'' = ''other.example.com''"
  "py_lower ''ssh.example.com'' = ''ssh.example.com''"
  by (simp_all add: py_lower_def lower_char_def)

text \<open>A page whose principals all parse goes through; the services of the host in it go.\<close>

lemma del_services_parsed:
  assumes "distinct ps" and "set ps \<subseteq> set (service_principals w)"
    and "\<forall>p \<in> set ps. sp p \<noteq> None"
  shows "del_services service_del_entry sp f (map service_entry ps) w =
           (None, w\<lparr>service_principals :=
                      filter (\<lambda>q. \<not> (owned_by sp f q \<and> q \<in> set ps)) (service_principals w)\<rparr>)"
  using assms
proof (induction ps arbitrary: w)
  case Nil
  then show ?case by simp
next
  case (Cons p ps)
  from Cons.prems(3) obtain s h r where sp: "sp p = Some (s, h, r)" by fastforce
  show ?case
  proof (cases "py_lower h = f")
    case True
    then have own: "owned_by sp f p" using sp by (simp add: owned_by_def)
    let ?w1 = "w\<lparr>service_principals := removeAll p (service_principals w)\<rparr>"
    have "del_services service_del_entry sp f (map service_entry ps) ?w1 =
        (None, ?w1\<lparr>service_principals :=
           filter (\<lambda>q. \<not> (owned_by sp f q \<and> q \<in> set ps)) (service_principals ?w1)\<rparr>)"
      using Cons.prems by (intro Cons.IH) auto
    moreover have "filter (\<lambda>q. \<not> (owned_by sp f q \<and> q \<in> set ps))
          (removeAll p (service_principals w)) =
        filter (\<lambda>q. \<not> (owned_by sp f q \<and> q \<in> set (p # ps))) (service_principals w)"
      unfolding removeAll_filter_not_eq filter_filter
      using own by (intro filter_cong [OF refl]) auto
    ultimately show ?thesis using sp True Cons.prems(2)
      by (simp add: service_entry_princ service_del_entry_in)
  next
    case False
    then have nown: "\<not> owned_by sp f p" using sp by (simp add: owned_by_def)
    have "del_services service_del_entry sp f (map service_entry ps) w =
        (None, w\<lparr>service_principals :=
           filter (\<lambda>q. \<not> (owned_by sp f q \<and> q \<in> set ps)) (service_principals w)\<rparr>)"
      using Cons.prems by (intro Cons.IH) auto
    moreover have "filter (\<lambda>q. \<not> (owned_by sp f q \<and> q \<in> set ps)) (service_principals w) =
        filter (\<lambda>q. \<not> (owned_by sp f q \<and> q \<in> set (p # ps))) (service_principals w)"
      using nown by (intro filter_cong [OF refl]) auto
    ultimately show ?thesis using sp False
      by (simp add: service_entry_princ)
  qed
qed

text \<open>A truncated page that leaves everything as it is comes back for ever.\<close>

lemma loop_stuck:
  assumes "sf w f = (Inr (True, ss), w)" and "del_services sd sp f ss w = (None, w)"
  shows "service_loop sf sd sp f w = None"
proof (cases "service_loop sf sd sp f w")
  case None
  then show ?thesis .
next
  case (Some y)
  have "\<not> (sf' = sf \<and> sd' = sd \<and> sp' = sp \<and> f' = f \<and> w' = w)"
    if "service_loop sf' sd' sp' f' w' = Some y'" for sf' sd' sp' f' w' y'
  proof (rule service_loop.raw_induct [where P = "\<lambda>sf' sd' sp' f' w' y'.
      \<not> (sf' = sf \<and> sd' = sd \<and> sp' = sp \<and> f' = f \<and> w' = w)", OF _ that])
    fix loop sf' sd' sp' f' w' y'
    assume IH: "\<And>sf' sd' sp' f' w' y'. loop sf' sd' sp' f' w' = Some y' \<Longrightarrow>
        \<not> (sf' = sf \<and> sd' = sd \<and> sp' = sp \<and> f' = f \<and> w' = w)"
      and body: "(case sf' w' f' of
        (Inl err, w'') \<Rightarrow> Some (if err = NotFound then None else Some err, w'')
        | (Inr (truncated, services), w'') \<Rightarrow>
            (case del_services sd' sp' f' services w'' of
               (None, w''') \<Rightarrow>
                 if truncated then loop sf' sd' sp' f' w''' else Some (None, w''')
             | (Some err, w''') \<Rightarrow> Some (Some err, w'''))) = Some y'"
    show "\<not> (sf' = sf \<and> sd' = sd \<and> sp' = sp \<and> f' = f \<and> w' = w)"
    proof
      assume e: "sf' = sf \<and> sd' = sd \<and> sp' = sp \<and> f' = f \<and> w' = w"
      then have "loop sf sd sp f w = Some y'" using body assms by simp
      from IH [OF this] show False by simp
    qed
  qed
  from this [OF Some] show ?thesis by simp
qed


text \<open>
  The loop ends when fewer services of other hosts are found than a page holds: every
  truncated page then has a service of the host in it.
\<close>

lemma loop_total:
  assumes "distinct (service_principals w)"
    and "\<forall>p \<in> set (service_principals w). sc f p \<longrightarrow> sp p \<noteq> None"
    and "\<forall>p \<in> set (service_principals w). owned_by sp f p \<longrightarrow> sc f p"
    and "length (filter (\<lambda>p. sc f p \<and> \<not> owned_by sp f p) (service_principals w)) < n"
  shows "service_loop (service_find_paged n sc) service_del_entry sp f w =
           Some (None, w\<lparr>service_principals :=
                          filter (\<lambda>p. \<not> owned_by sp f p) (service_principals w)\<rparr>)"
  using assms
proof (induction "length (filter (owned_by sp f) (service_principals w))" arbitrary: w
    rule: less_induct)
  case less
  let ?S = "service_principals w"
  let ?own = "owned_by sp f"
  let ?found = "filter (sc f) ?S"
  let ?page = "take n ?found"
  let ?S1 = "filter (\<lambda>q. \<not> (?own q \<and> q \<in> set ?page)) ?S"
  let ?w1 = "w\<lparr>service_principals := ?S1\<rparr>"
  have dfound: "distinct ?found" using less.prems(1) by simp
  have pg: "sc f q \<and> q \<in> set ?S" if "q \<in> set ?page" for q
  proof -
    from that have "q \<in> set ?found" by (rule in_set_takeD)
    then show ?thesis by simp
  qed
  have d: "del_services service_del_entry sp f (map service_entry ?page) w = (None, ?w1)"
  proof (rule del_services_parsed)
    show "distinct ?page" using dfound by (rule distinct_take)
    show "set ?page \<subseteq> set ?S" using pg by blast
    show "\<forall>p \<in> set ?page. sp p \<noteq> None" using pg less.prems(2) by blast
  qed
  have rest: "filter (\<lambda>p. \<not> ?own p) ?S1 = filter (\<lambda>p. \<not> ?own p) ?S"
    unfolding filter_filter by (intro filter_cong [OF refl]) auto
  have foreign: "filter (\<lambda>p. sc f p \<and> \<not> ?own p) ?S1 = filter (\<lambda>p. sc f p \<and> \<not> ?own p) ?S"
    unfolding filter_filter by (intro filter_cong [OF refl]) auto
  show ?case
  proof (cases "n < length ?found")
    case True
    have step: "service_loop (service_find_paged n sc) service_del_entry sp f w =
        service_loop (service_find_paged n sc) service_del_entry sp f ?w1"
      using True d by (subst service_loop.simps) (simp add: find_paged)
    have "\<exists>q \<in> set ?page. ?own q"
    proof (rule ccontr)
      assume "\<not> (\<exists>q \<in> set ?page. ?own q)"
      then have "x \<in> set (filter (\<lambda>p. sc f p \<and> \<not> ?own p) ?S)" if "x \<in> set ?page" for x
        using that pg [OF that] by simp
      then have "set ?page \<subseteq> set (filter (\<lambda>p. sc f p \<and> \<not> ?own p) ?S)"
        by (rule subsetI)
      then have "card (set ?page) \<le> card (set (filter (\<lambda>p. sc f p \<and> \<not> ?own p) ?S))"
        by (intro card_mono) simp_all
      moreover have "card (set ?page) = n"
        using dfound True by (simp add: distinct_card distinct_take)
      moreover have "card (set (filter (\<lambda>p. sc f p \<and> \<not> ?own p) ?S)) \<le>
          length (filter (\<lambda>p. sc f p \<and> \<not> ?own p) ?S)" by (rule card_length)
      ultimately show False using less.prems(4) by linarith
    qed
    then obtain q where q: "q \<in> set ?page" "?own q" by blast
    have "filter ?own ?S1 = filter (\<lambda>x. x \<notin> set ?page) (filter ?own ?S)"
      unfolding filter_filter by (intro filter_cong [OF refl]) auto
    moreover have "length (filter (\<lambda>x. x \<notin> set ?page) (filter ?own ?S)) < length (filter ?own ?S)"
    proof (rule length_filter_less [of q])
      show "q \<in> set (filter ?own ?S)" using q(2) pg [OF q(1)] by simp
      show "\<not> q \<notin> set ?page" using q(1) by simp
    qed
    ultimately have m: "length (filter ?own (service_principals ?w1)) < length (filter ?own ?S)"
      by simp
    have "service_loop (service_find_paged n sc) service_del_entry sp f ?w1 =
        Some (None, ?w1\<lparr>service_principals :=
                          filter (\<lambda>p. \<not> ?own p) (service_principals ?w1)\<rparr>)"
    proof (rule less.hyps [OF m])
      show "distinct (service_principals ?w1)" using less.prems(1) by simp
      show "\<forall>p \<in> set (service_principals ?w1). sc f p \<longrightarrow> sp p \<noteq> None"
        using less.prems(2) by simp
      show "\<forall>p \<in> set (service_principals ?w1). ?own p \<longrightarrow> sc f p"
        using less.prems(3) by simp
      show "length (filter (\<lambda>p. sc f p \<and> \<not> ?own p) (service_principals ?w1)) < n"
        using less.prems(4) foreign by simp
    qed
    then show ?thesis using step rest by simp
  next
    case False
    then have tk: "?page = ?found" by simp
    have "service_loop (service_find_paged n sc) service_del_entry sp f w = Some (None, ?w1)"
      using False d by (subst service_loop.simps) (simp add: find_paged)
    moreover have "?S1 = filter (\<lambda>p. \<not> ?own p) ?S"
      unfolding tk using less.prems(3) by (intro filter_cong [OF refl]) auto
    ultimately show ?thesis by simp
  qed
qed


lemma del_services_foreign:
  assumes "\<forall>p \<in> set ps. sp p \<noteq> None \<and> \<not> owned_by sp f p"
  shows "del_services sd sp f (map service_entry ps) w = (None, w)"
  using assms
proof (induction ps)
  case Nil
  then show ?case by simp
next
  case (Cons p ps)
  then obtain s h r where "sp p = Some (s, h, r)" "py_lower h \<noteq> f"
    by (auto simp: owned_by_def)
  then show ?case using Cons by (simp add: service_entry_princ)
qed

lemma del_fqdn_name:
  assumes "keys \<noteq> []"
    and "if CHR ''.'' \<in> set (last keys) then fqdn = last keys
         else \<exists>he fs. host_show w (last keys) = Inr he \<and> he ''fqdn'' = Some (fqdn # fs)"
  shows "del_fqdn host_show w keys = Inr fqdn"
  using assms by (auto simp: del_fqdn_def validate_host_def split: if_splits)

lemma delete_entry_cases:
  "delete_entry w dn =
     (if dn \<in> fst ` set (host_entries w)
      then (None, w\<lparr>host_entries := filter (\<lambda>(d, e). d \<noteq> dn) (host_entries w)\<rparr>)
      else (Some NotFound, w))"
  by (simp add: delete_entry_def)

text \<open>
  C5, amended. A delete of a host whose name \<open>fqdn\<close> is the last key, or the name
  \<open>host_show\<close> gives for a key without a dot, on a directory where the search for a host
  name covers the services of that host.

  When the delete returns, the services of other hosts are the ones of before, in the
  order of before; when it returns the identifier, no service of the host is left and the
  host entry is gone; when it returns an error, the host entries are the ones of before:
  the host entry goes only after the cascade has ended without an error.

  The delete returns, with all services of the host and the host entry deleted and nothing
  else changed, when the services are distinct, the principals the search covers parse,
  the host entry exists and the services of other hosts that the search covers are fewer
  than the page size. It never returns when the first page is truncated and holds
  services of other hosts only: the same page comes back for ever.
\<close>

theorem cascade_delete:
  assumes keys: "keys \<noteq> []"
    and name: "if CHR ''.'' \<in> set (last keys) then fqdn = last keys
         else \<exists>he fs. host_show w (last keys) = Inr he \<and> he ''fqdn'' = Some (fqdn # fs)"
    and scope: "\<forall>p \<in> set (service_principals w). owned_by sp fqdn p \<longrightarrow> in_scope fqdn p"
  shows "(\<forall>r w'. host_del_execute host_show (service_find_paged n in_scope) service_del_entry
                   sp w dn keys = Some (r, w') \<longrightarrow>
            filter (\<lambda>p. \<not> owned_by sp fqdn p) (service_principals w') =
              filter (\<lambda>p. \<not> owned_by sp fqdn p) (service_principals w)
          \<and> (case r of
               Inr d \<Rightarrow> d = dn \<and> (\<forall>p \<in> set (service_principals w'). \<not> owned_by sp fqdn p)
                          \<and> dn \<notin> fst ` set (host_entries w')
             | Inl err \<Rightarrow> host_entries w' = host_entries w))
       \<and> (distinct (service_principals w)
            \<and> (\<forall>p \<in> set (service_principals w). in_scope fqdn p \<longrightarrow> sp p \<noteq> None)
            \<and> length (filter (\<lambda>p. in_scope fqdn p \<and> \<not> owned_by sp fqdn p)
                         (service_principals w)) < n
            \<and> dn \<in> fst ` set (host_entries w) \<longrightarrow>
            host_del_execute host_show (service_find_paged n in_scope) service_del_entry
                   sp w dn keys =
              Some (Inr dn,
                    \<lparr>host_entries = filter (\<lambda>(d, e). d \<noteq> dn) (host_entries w),
                     service_principals =
                       filter (\<lambda>p. \<not> owned_by sp fqdn p) (service_principals w)\<rparr>))
       \<and> (n < length (filter (in_scope fqdn) (service_principals w))
            \<and> (\<forall>p \<in> set (take n (filter (in_scope fqdn) (service_principals w))).
                  sp p \<noteq> None \<and> \<not> owned_by sp fqdn p) \<longrightarrow>
            host_del_execute host_show (service_find_paged n in_scope) service_del_entry
                   sp w dn keys = None)"
proof -
  have fq: "del_fqdn host_show w keys = Inr fqdn"
    using keys name by (rule del_fqdn_name)
  let ?ex = "host_del_execute host_show (service_find_paged n in_scope) service_del_entry
                   sp w dn keys"
  let ?loop = "service_loop (service_find_paged n in_scope) service_del_entry sp fqdn w"
  have part: "filter (\<lambda>p. \<not> owned_by sp fqdn p) (service_principals w') =
              filter (\<lambda>p. \<not> owned_by sp fqdn p) (service_principals w)
          \<and> (case r of
               Inr d \<Rightarrow> d = dn \<and> (\<forall>p \<in> set (service_principals w'). \<not> owned_by sp fqdn p)
                          \<and> dn \<notin> fst ` set (host_entries w')
             | Inl err \<Rightarrow> host_entries w' = host_entries w)"
    if ex: "?ex = Some (r, w')" for r w'
  proof -
    from ex obtain out w1 where l: "?loop = Some (out, w1)"
      by (auto simp: host_del_execute_def host_del_pre_callback_def fq split: option.splits)
    from loop_partial [OF l, of n in_scope]
    have p1: "host_entries w1 = host_entries w"
      and p2: "set (service_principals w1) \<subseteq> set (service_principals w)"
      and p3: "filter (\<lambda>p. \<not> owned_by sp fqdn p) (service_principals w1) =
             filter (\<lambda>p. \<not> owned_by sp fqdn p) (service_principals w)"
      and p4: "out = None \<longrightarrow>
              (\<forall>p \<in> set (service_principals w1). owned_by sp fqdn p \<longrightarrow> \<not> in_scope fqdn p)"
      by simp_all
    have gone: "\<forall>p \<in> set (service_principals w1). \<not> owned_by sp fqdn p" if "out = None"
      using that p2 p4 scope by blast
    show ?thesis
    proof (cases out)
      case (Some err)
      then have "r = Inl err" "w' = w1"
        using ex l by (simp_all add: host_del_execute_def host_del_pre_callback_def fq)
      then show ?thesis using p1 p3 by simp
    next
      case None
      show ?thesis
      proof (cases "dn \<in> fst ` set (host_entries w1)")
        case True
        then have "r = Inr dn"
          "w' = w1\<lparr>host_entries := filter (\<lambda>(d, e). d \<noteq> dn) (host_entries w1)\<rparr>"
          using ex l None
          by (simp_all add: host_del_execute_def host_del_pre_callback_def fq
              delete_entry_cases)
        then show ?thesis using p3 gone [OF None] by auto
      next
        case False
        then have "r = Inl NotFound" "w' = w1"
          using ex l None
          by (simp_all add: host_del_execute_def host_del_pre_callback_def fq
              delete_entry_cases)
        then show ?thesis using p1 p3 by simp
      qed
    qed
  qed
  have total: "?ex =
              Some (Inr dn,
                    \<lparr>host_entries = filter (\<lambda>(d, e). d \<noteq> dn) (host_entries w),
                     service_principals =
                       filter (\<lambda>p. \<not> owned_by sp fqdn p) (service_principals w)\<rparr>)"
    if a1: "distinct (service_principals w)"
      and a2: "\<forall>p \<in> set (service_principals w). in_scope fqdn p \<longrightarrow> sp p \<noteq> None"
      and a3: "length (filter (\<lambda>p. in_scope fqdn p \<and> \<not> owned_by sp fqdn p)
                         (service_principals w)) < n"
      and a4: "dn \<in> fst ` set (host_entries w)"
  proof -
    have "?loop = Some (None, w\<lparr>service_principals :=
                          filter (\<lambda>p. \<not> owned_by sp fqdn p) (service_principals w)\<rparr>)"
      using a1 a2 scope a3 by (rule loop_total)
    then show ?thesis using a4
      by (simp add: host_del_execute_def host_del_pre_callback_def fq delete_entry_cases)
  qed
  have stuck: "?ex = None"
    if b1: "n < length (filter (in_scope fqdn) (service_principals w))"
      and b2: "\<forall>p \<in> set (take n (filter (in_scope fqdn) (service_principals w))).
                  sp p \<noteq> None \<and> \<not> owned_by sp fqdn p"
  proof -
    have "?loop = None"
    proof (rule loop_stuck)
      show "service_find_paged n in_scope w fqdn =
          (Inr (True, map service_entry (take n (filter (in_scope fqdn) (service_principals w)))), w)"
        using b1 by (simp add: find_paged)
      show "del_services service_del_entry sp fqdn
          (map service_entry (take n (filter (in_scope fqdn) (service_principals w)))) w = (None, w)"
        using b2 by (rule del_services_foreign)
    qed
    then show ?thesis by (simp add: host_del_execute_def host_del_pre_callback_def fq)
  qed
  show ?thesis using part total stuck by blast
qed

text \<open>
  The directory of the example: the search by substring for \<open>h.example.com\<close> covers
  the two services of the host and the service of \<open>ssh.example.com\<close>.
\<close>

lemma owned_example:
  "\<not> owned_by split_example ''h.example.com'' ''HTTP/ssh.example.com@EXAMPLE.COM''"
  "owned_by split_example ''h.example.com'' ''HTTP/h.example.com@EXAMPLE.COM''"
  "\<not> owned_by split_example ''h.example.com'' ''HTTP/other.example.com@EXAMPLE.COM''"
  "owned_by split_example ''h.example.com'' ''ldap/h.example.com@EXAMPLE.COM''"
  by (simp_all add: owned_by_def split_example_def lower_example)

lemma text_search_example:
  "text_search ''h.example.com'' ''HTTP/ssh.example.com@EXAMPLE.COM''"
  "text_search ''h.example.com'' ''HTTP/h.example.com@EXAMPLE.COM''"
  "\<not> text_search ''h.example.com'' ''HTTP/other.example.com@EXAMPLE.COM''"
  "text_search ''h.example.com'' ''ldap/h.example.com@EXAMPLE.COM''"
  by (simp_all add: text_search_def sublist_code)

text \<open>
  With pages of two services the delete of \<open>h.example.com\<close> returns: both services of
  the host and the host entry are gone, the services of \<open>ssh.example.com\<close> and
  \<open>other.example.com\<close> remain.
\<close>

theorem cascade_delete_witness:
  "host_del_execute no_host_show
     (service_find_paged 2 text_search) service_del_entry split_example
     example_world ''fqdn=h.example.com,cn=computers'' [''h.example.com'']
   = Some (Inr ''fqdn=h.example.com,cn=computers'',
           \<lparr>host_entries = [],
            service_principals =
              [''HTTP/ssh.example.com@EXAMPLE.COM'', ''HTTP/other.example.com@EXAMPLE.COM'']\<rparr>)"
proof -
  have k: "[''h.example.com''] \<noteq> []" by simp
  have nm: "if CHR ''.'' \<in> set (last [''h.example.com''])
      then ''h.example.com'' = last [''h.example.com'']
      else \<exists>he fs. no_host_show example_world (last [''h.example.com'']) = Inr he
             \<and> he ''fqdn'' = Some (''h.example.com'' # fs)"
    by simp
  have sc: "\<forall>p \<in> set (service_principals example_world).
      owned_by split_example ''h.example.com'' p \<longrightarrow> text_search ''h.example.com'' p"
    by (simp add: example_world_def owned_example text_search_example)
  have d: "distinct (service_principals example_world)"
    by (simp add: example_world_def)
  have ps: "\<forall>p \<in> set (service_principals example_world).
      text_search ''h.example.com'' p \<longrightarrow> split_example p \<noteq> None"
    by (simp add: example_world_def split_example_def)
  have few: "length (filter (\<lambda>p. text_search ''h.example.com'' p
                 \<and> \<not> owned_by split_example ''h.example.com'' p)
               (service_principals example_world)) < 2"
    by (simp add: example_world_def owned_example text_search_example)
  have h: "''fqdn=h.example.com,cn=computers'' \<in> fst ` set (host_entries example_world)"
    by (simp add: example_world_def)
  from cascade_delete [where host_show = no_host_show and w = example_world
        and keys = "[''h.example.com'']" and fqdn = "''h.example.com''"
        and sp = split_example and in_scope = text_search and n = 2
        and dn = "''fqdn=h.example.com,cn=computers''"] k nm sc
  have "distinct (service_principals example_world)
      \<and> (\<forall>p \<in> set (service_principals example_world).
            text_search ''h.example.com'' p \<longrightarrow> split_example p \<noteq> None)
      \<and> length (filter (\<lambda>p. text_search ''h.example.com'' p
                 \<and> \<not> owned_by split_example ''h.example.com'' p)
               (service_principals example_world)) < 2
      \<and> ''fqdn=h.example.com,cn=computers'' \<in> fst ` set (host_entries example_world) \<longrightarrow>
    host_del_execute no_host_show
     (service_find_paged 2 text_search) service_del_entry split_example
     example_world ''fqdn=h.example.com,cn=computers'' [''h.example.com'']
   = Some (Inr ''fqdn=h.example.com,cn=computers'',
           \<lparr>host_entries = filter (\<lambda>(d, e). d \<noteq> ''fqdn=h.example.com,cn=computers'')
                             (host_entries example_world),
            service_principals = filter (\<lambda>p. \<not> owned_by split_example ''h.example.com'' p)
                             (service_principals example_world)\<rparr>)"
    by blast
  with d ps few h have "host_del_execute no_host_show
     (service_find_paged 2 text_search) service_del_entry split_example
     example_world ''fqdn=h.example.com,cn=computers'' [''h.example.com'']
   = Some (Inr ''fqdn=h.example.com,cn=computers'',
           \<lparr>host_entries = filter (\<lambda>(d, e). d \<noteq> ''fqdn=h.example.com,cn=computers'')
                             (host_entries example_world),
            service_principals = filter (\<lambda>p. \<not> owned_by split_example ''h.example.com'' p)
                             (service_principals example_world)\<rparr>)"
    by blast
  then show ?thesis by (simp add: example_world_def owned_example)
qed

text \<open>
  C5 as stated fails: with pages of one service the delete of \<open>h.example.com\<close> never
  returns, although the services are distinct, the host entry exists and the search
  covers both services of the host. The first page holds the service of
  \<open>ssh.example.com\<close>, which line 246 skips, and is truncated, so line 236 asks for
  the same page again: no service of the host is deleted and the host entry stays.
\<close>

theorem cascade_never_returns_counterexample:
  "host_del_execute no_host_show
     (service_find_paged 1 text_search) service_del_entry split_example
     example_world ''fqdn=h.example.com,cn=computers'' [''h.example.com''] = None
   \<and> distinct (service_principals example_world)
   \<and> ''fqdn=h.example.com,cn=computers'' \<in> fst ` set (host_entries example_world)
   \<and> filter (owned_by split_example ''h.example.com'') (service_principals example_world) =
       [''HTTP/h.example.com@EXAMPLE.COM'', ''ldap/h.example.com@EXAMPLE.COM'']
   \<and> filter (text_search ''h.example.com'') (service_principals example_world) =
       [''HTTP/ssh.example.com@EXAMPLE.COM'', ''HTTP/h.example.com@EXAMPLE.COM'',
        ''ldap/h.example.com@EXAMPLE.COM'']"
proof -
  have pg: "service_find_paged 1 text_search example_world ''h.example.com'' =
      (Inr (True, [service_entry ''HTTP/ssh.example.com@EXAMPLE.COM'']), example_world)"
    by (simp add: service_find_paged_def example_world_def text_search_example)
  have ds: "del_services service_del_entry split_example ''h.example.com''
      [service_entry ''HTTP/ssh.example.com@EXAMPLE.COM''] example_world = (None, example_world)"
    by (simp add: service_entry_princ split_example_def lower_example)
  have "service_loop (service_find_paged 1 text_search) service_del_entry split_example
      ''h.example.com'' example_world = None"
    using pg ds by (rule loop_stuck)
  then have "host_del_execute no_host_show
     (service_find_paged 1 text_search) service_del_entry split_example
     example_world ''fqdn=h.example.com,cn=computers'' [''h.example.com''] = None"
    by (simp add: host_del_execute_def host_del_pre_callback_def del_fqdn_def validate_host_def)
  moreover have "distinct (service_principals example_world)"
    by (simp add: example_world_def)
  moreover have "''fqdn=h.example.com,cn=computers'' \<in> fst ` set (host_entries example_world)"
    by (simp add: example_world_def)
  moreover have "filter (owned_by split_example ''h.example.com'')
      (service_principals example_world) =
       [''HTTP/h.example.com@EXAMPLE.COM'', ''ldap/h.example.com@EXAMPLE.COM'']"
    by (simp add: example_world_def owned_example)
  moreover have "filter (text_search ''h.example.com'') (service_principals example_world) =
       [''HTTP/ssh.example.com@EXAMPLE.COM'', ''HTTP/h.example.com@EXAMPLE.COM'',
        ''ldap/h.example.com@EXAMPLE.COM'']"
    by (simp add: example_world_def text_search_example)
  ultimately show ?thesis by (intro conjI)
qed

text \<open>
  The loop on two responses: it deletes the service of the first page, reads the second
  page, which is the last, and stops after two searches.
\<close>

theorem loop_stops_witness:
  "service_loop (find_response example_responses) del_ok split_example ''h.example.com'' 0
     = Some (None, 2)"
proof -
  let ?c = "\<lambda>n. continues split_example ''h.example.com'' (example_responses (0 + n))"
  have c0: "?c 0"
    by (simp add: continues_def example_responses_def service_entry_princ del_ok_def
        split_example_def lower_example)
  have c1: "\<not> ?c 1" by (simp add: continues_def example_responses_def)
  have L: "(LEAST n. \<not> ?c n) = 1"
  proof (rule Least_equality)
    show "\<not> ?c 1" by (rule c1)
    show "1 \<le> y" if "\<not> ?c y" for y using that c0 by (cases y) auto
  qed
  have ex: "\<exists>n. \<not> ?c n" using c1 by blast
  show ?thesis
    using loop_stops_at_first_final_response
      [of split_example "''h.example.com''" example_responses 0] ex
    by (simp only: L if_True) (simp add: page_outcome_def example_responses_def)
qed

end
